theory Spec2Isabelle
  imports Main "HOL-Library.Word"
begin

unbundle bit_operations_syntax

section \<open>Instruction set features (instruction_set_features_riscv64.cc)\<close>

text \<open>
  The feature bitmap is the \<open>uint32_t bits_\<close> member; the bit positions are the
  anonymous enum of the class declaration.
\<close>

definition kIBitfield :: "32 word" where "kIBitfield = push_bit 0 1"
definition kMBitfield :: "32 word" where "kMBitfield = push_bit 1 1"
definition kABitfield :: "32 word" where "kABitfield = push_bit 2 1"
definition kFBitfield :: "32 word" where "kFBitfield = push_bit 3 1"
definition kDBitfield :: "32 word" where "kDBitfield = push_bit 4 1"
definition kCBitfield :: "32 word" where "kCBitfield = push_bit 5 1"
definition kVBitfield :: "32 word" where "kVBitfield = push_bit 6 1"

text \<open>\<open>FromBitmap\<close> stores the bitmap unchanged; \<open>FromCppDefines\<close> (and the variant,
  cpuinfo, hwcap paths, which all produce the same value) stores the default set.\<close>

definition FromBitmap :: "32 word \<Rightarrow> 32 word" where
  "FromBitmap bitmap = bitmap"

definition FromCppDefines :: "32 word" where
  "FromCppDefines = kIBitfield OR kMBitfield OR kABitfield OR kFBitfield OR kDBitfield OR kCBitfield"

definition GetFeatureString :: "32 word \<Rightarrow> string" where
  "GetFeatureString bits =
     (let result = ''rv64imaf'';
          result = (if bits AND kDBitfield \<noteq> 0 then result @ ''d'' else result);
          result = (if bits AND kCBitfield \<noteq> 0 then result @ ''c'' else result);
          result = (if bits AND kVBitfield \<noteq> 0 then result @ ''v'' else result)
      in result)"


section \<open>JNI calling convention (calling_convention_riscv64.cc)\<close>

datatype check_error = CheckFailed | DCheckFailed | NullDereference | Unreachable | Diverges

text \<open>
  Register names of registers\_riscv64.h (that header is not among the sources); only the
  argument registers are needed here, and they are kept symbolic.
\<close>

datatype GpuArgRegister = A0 | A1 | A2 | A3 | A4 | A5 | A6 | A7
datatype FpuArgRegister = FA0 | FA1 | FA2 | FA3 | FA4 | FA5 | FA6 | FA7

datatype ManagedRegister = FromGpuRegister GpuArgRegister | FromFpuRegister FpuArgRegister

definition kGpuArgumentRegisters :: "GpuArgRegister list" where
  "kGpuArgumentRegisters = [A0, A1, A2, A3, A4, A5, A6, A7]"

definition kFpuArgumentRegisters :: "FpuArgRegister list" where
  "kFpuArgumentRegisters = [FA0, FA1, FA2, FA3, FA4, FA5, FA6, FA7]"

definition kMaxFloatOrDoubleRegisterArguments :: nat where
  "kMaxFloatOrDoubleRegisterArguments = 8"

definition kMaxIntLikeRegisterArguments :: nat where
  "kMaxIntLikeRegisterArguments = 8"

text \<open>Subtraction of two \<open>unsigned int\<close> values, wrapping modulo \<open>2^32\<close>.\<close>

definition u32_sub :: "nat \<Rightarrow> nat \<Rightarrow> nat" where
  "u32_sub a b = (a mod 2 ^ 32 + 2 ^ 32 - b mod 2 ^ 32) mod 2 ^ 32"

text \<open>
  The iterator state of the calling convention (member names without the trailing
  underscore of the source): \<open>itr_args\<close> counts the parameters
  already passed over, \<open>itr_float_and_doubles\<close> the floating-point ones among them;
  \<open>cur_is_fp\<close> is the answer of \<open>IsCurrentParamAFloatOrDouble()\<close> of the base class.
\<close>

record JniIterator =
  itr_args :: nat
  itr_float_and_doubles :: nat
  cur_is_fp :: bool

definition IsCurrentParamInRegister :: "JniIterator \<Rightarrow> bool" where
  "IsCurrentParamInRegister it =
     (let gp_args = u32_sub (itr_args it) (itr_float_and_doubles it) in
      if cur_is_fp it then
        (let can_spilled_to_gp = (if gp_args < 8 then 8 - gp_args else 0)
         in itr_float_and_doubles it < kMaxFloatOrDoubleRegisterArguments + can_spilled_to_gp)
      else
        (let spilled_to_gp =
               (if gp_args < 8
                then (if itr_float_and_doubles it \<ge> kMaxFloatOrDoubleRegisterArguments
                      then itr_float_and_doubles it - kMaxFloatOrDoubleRegisterArguments else 0)
                else 0)
         in gp_args + spilled_to_gp < kMaxIntLikeRegisterArguments))"

definition IsCurrentParamOnStack :: "JniIterator \<Rightarrow> bool" where
  "IsCurrentParamOnStack it = (\<not> IsCurrentParamInRegister it)"

definition CurrentParamRegister :: "JniIterator \<Rightarrow> check_error + ManagedRegister" where
  "CurrentParamRegister it =
     (if \<not> IsCurrentParamInRegister it then Inl CheckFailed
      else
        (let gp_reg = u32_sub (itr_args it) (itr_float_and_doubles it) in
         if cur_is_fp it then
           (if itr_float_and_doubles it < kMaxFloatOrDoubleRegisterArguments
            then Inr (FromFpuRegister (kFpuArgumentRegisters ! itr_float_and_doubles it))
            else
              (let spilled_to_gp = itr_float_and_doubles it - kMaxFloatOrDoubleRegisterArguments in
               if \<not> gp_reg + spilled_to_gp < kMaxIntLikeRegisterArguments then Inl CheckFailed
               else Inr (FromGpuRegister (kGpuArgumentRegisters ! (gp_reg + spilled_to_gp)))))
         else
           (let spilled_to_gp =
                  (if itr_float_and_doubles it \<ge> kMaxFloatOrDoubleRegisterArguments
                   then itr_float_and_doubles it - kMaxFloatOrDoubleRegisterArguments else 0) in
            if \<not> gp_reg + spilled_to_gp < kMaxIntLikeRegisterArguments then Inl CheckFailed
            else Inr (FromGpuRegister (kGpuArgumentRegisters ! (gp_reg + spilled_to_gp))))))"

datatype ParamKind = IntLike | FloatOrDouble

datatype ParamLocation = InRegister ManagedRegister | OnStack

text \<open>Where the current parameter lives, as a caller asks for it: first
  \<open>IsCurrentParamOnStack\<close>, and only if not, \<open>CurrentParamRegister\<close>.\<close>

definition CurrentParamLocation :: "JniIterator \<Rightarrow> check_error + ParamLocation" where
  "CurrentParamLocation it =
     (if IsCurrentParamOnStack it then Inr OnStack
      else (case CurrentParamRegister it of
              Inl e \<Rightarrow> Inl e
            | Inr r \<Rightarrow> Inr (InRegister r)))"

text \<open>
  Modelled from the spec: the iteration itself (\<open>Next()\<close> of the base class in
  calling\_convention.cc) is not among the sources. Parameters are visited in argument
  order; passing over a parameter increments \<open>itr_args\<close>, and
  \<open>itr_float_and_doubles\<close> too when it is a float or a double.
\<close>

fun jni_locations :: "nat \<Rightarrow> nat \<Rightarrow> ParamKind list \<Rightarrow> (check_error + ParamLocation) list" where
  "jni_locations a f [] = []"
| "jni_locations a f (p # ps) =
     CurrentParamLocation \<lparr>itr_args = a, itr_float_and_doubles = f,
                            cur_is_fp = (p = FloatOrDouble)\<rparr>
       # jni_locations (Suc a) (if p = FloatOrDouble then Suc f else f) ps"

text \<open>
  The budget rule in the spec's words, as a sequential allocator: a floating-point
  parameter takes the next floating-point register while fewer than eight are used,
  then the next still-available integer register, then the stack; an integer-like
  parameter takes the next still-available integer register, then the stack.
\<close>

fun spec_allocate :: "nat \<Rightarrow> nat \<Rightarrow> ParamKind list \<Rightarrow> (check_error + ParamLocation) list" where
  "spec_allocate fprs gprs [] = []"
| "spec_allocate fprs gprs (FloatOrDouble # ps) =
     (if fprs < 8 then
        Inr (InRegister (FromFpuRegister (kFpuArgumentRegisters ! fprs)))
          # spec_allocate (Suc fprs) gprs ps
      else if gprs < 8 then
        Inr (InRegister (FromGpuRegister (kGpuArgumentRegisters ! gprs)))
          # spec_allocate fprs (Suc gprs) ps
      else Inr OnStack # spec_allocate fprs gprs ps)"
| "spec_allocate fprs gprs (IntLike # ps) =
     (if gprs < 8 then
        Inr (InRegister (FromGpuRegister (kGpuArgumentRegisters ! gprs)))
          # spec_allocate fprs (Suc gprs) ps
      else Inr OnStack # spec_allocate fprs gprs ps)"

text \<open>The number of floating-point parameters among the first \<open>i\<close>.\<close>

definition fp_before :: "ParamKind list \<Rightarrow> nat \<Rightarrow> nat" where
  "fp_before ps i = length (filter (\<lambda>p. p = FloatOrDouble) (take i ps))"

definition int_before :: "ParamKind list \<Rightarrow> nat \<Rightarrow> nat" where
  "int_before ps i = length (filter (\<lambda>p. p = IntLike) (take i ps))"

subsection \<open>Frame sizes of the JNI convention\<close>

text \<open>
  Constants of headers that are not among the sources: the frame pointer size of a
  64-bit target and the stack alignment (both \<open>kStackAlignment\<close> and
  \<open>kRiscv64StackAlignment\<close> are 16 bytes).
\<close>

definition kFramePointerSize :: nat where "kFramePointerSize = 8"
definition kStackAlignment :: nat where "kStackAlignment = 16"
definition kRiscv64StackAlignment :: nat where "kRiscv64StackAlignment = 16"

definition RoundUp :: "nat \<Rightarrow> nat \<Rightarrow> nat" where
  "RoundUp x n = ((x + n - 1) div n) * n"

text \<open>
  What \<open>FrameSize\<close>, \<open>OutFrameSize\<close> and \<open>UseTailCall\<close> read from the convention
  object. The answers of the base-class queries (\<open>SpillsMethod()\<close>,
  \<open>HasLocalReferenceSegmentState()\<close>, \<open>SpillsReturnValue()\<close>,
  \<open>SizeOfReturnValue()\<close>, \<open>RequiresSmallResultTypeExtension()\<close>), of
  \<open>GetNativeOutArgsSize\<close> and of \<open>GetCriticalNativeStubFrameSize\<close>, whose code is
  not among the sources, are fields; \<open>dchecks_enabled\<close> says whether the
  \<open>DCHECK\<close> macros are compiled in.
\<close>

record JniCallingConvention =
  is_critical_native :: bool
  SpillsMethod :: bool
  HasLocalReferenceSegmentState :: bool
  SpillsReturnValue :: bool
  SizeOfReturnValue :: nat
  ReturnValueSaveLocationSize :: nat
  RequiresSmallResultTypeExtension :: bool
  NativeOutArgsSize :: nat
  CriticalNativeStubFrameSize :: nat
  dchecks_enabled :: bool

definition IsCriticalNative :: "JniCallingConvention \<Rightarrow> bool" where
  "IsCriticalNative c = is_critical_native c"

definition UseTailCall :: "JniCallingConvention \<Rightarrow> check_error + bool" where
  "UseTailCall c = (if \<not> IsCriticalNative c then Inl CheckFailed else Inr False)"

text \<open>The number of registers returned by \<open>CalleeSaveRegisters()\<close>: nothing or
  \<open>kCriticalCalleeSaveRegisters\<close> (RA) for a critical native method, the 12
  floating-point and 10 core registers of \<open>kCalleeSaveRegisters\<close> otherwise.\<close>

definition CalleeSaveRegisters_size :: "JniCallingConvention \<Rightarrow> check_error + nat" where
  "CalleeSaveRegisters_size c =
     (if IsCriticalNative c then
        (case UseTailCall c of
           Inl e \<Rightarrow> Inl e
         | Inr tail \<Rightarrow> if tail then Inr 0 else Inr 1)
      else Inr 22)"

definition FrameSize :: "JniCallingConvention \<Rightarrow> check_error + nat" where
  "FrameSize c =
     (if is_critical_native c then
        (if SpillsMethod c then Inl CheckFailed
         else if HasLocalReferenceSegmentState c then Inl CheckFailed
         else if SpillsReturnValue c then Inl CheckFailed
         else Inr 0)
      else if dchecks_enabled c \<and> \<not> SpillsMethod c then Inl DCheckFailed
      else
        (case CalleeSaveRegisters_size c of
           Inl e \<Rightarrow> Inl e
         | Inr n \<Rightarrow>
            (let method_ptr_size = kFramePointerSize;
                 ra_and_callee_save_area_size = (n + 1) * kFramePointerSize;
                 ra_and_callee_save_area_size =
                   (if IsCriticalNative c then ra_and_callee_save_area_size - kFramePointerSize
                    else ra_and_callee_save_area_size);
                 total_size = method_ptr_size + ra_and_callee_save_area_size
             in if dchecks_enabled c \<and> \<not> HasLocalReferenceSegmentState c then Inl DCheckFailed
                else if SpillsReturnValue c then
                  (if dchecks_enabled c \<and> ReturnValueSaveLocationSize c \<noteq> method_ptr_size
                   then Inl DCheckFailed
                   else Inr (RoundUp (total_size + SizeOfReturnValue c) kStackAlignment))
                else Inr (RoundUp total_size kStackAlignment))))"

definition OutFrameSize :: "JniCallingConvention \<Rightarrow> check_error + nat" where
  "OutFrameSize c =
     (let size = NativeOutArgsSize c;
          size = (if IsCriticalNative c then size + kFramePointerSize else size);
          out_args_size = RoundUp size kRiscv64StackAlignment
      in if IsCriticalNative c \<and> dchecks_enabled c
            \<and> out_args_size \<noteq> CriticalNativeStubFrameSize c
         then Inl DCheckFailed
         else Inr out_args_size)"

text \<open>
  The outgoing-argument size in the spec's words: the slot for the return address is
  added for a critical native call only when it cannot be a tail call, that is when
  stack arguments are required or the result needs a sign or zero extension.
\<close>

definition OutFrameSize_spec :: "JniCallingConvention \<Rightarrow> nat" where
  "OutFrameSize_spec c =
     (let size = NativeOutArgsSize c;
          size = (if is_critical_native c \<and> (size \<noteq> 0 \<or> RequiresSmallResultTypeExtension c)
                  then size + kFramePointerSize else size)
      in RoundUp size kRiscv64StackAlignment)"

section \<open>Unwind context (context\_riscv64.h)\<close>

definition kNumberOfGpuRegisters :: nat where "kNumberOfGpuRegisters = 32"
definition kNumberOfFpuRegisters :: nat where "kNumberOfFpuRegisters = 32"

text \<open>
  \<open>gprs\<close> and \<open>fprs\<close> are the arrays of pointers to saved register values:
  \<open>None\<close> is the null pointer, \<open>Some a\<close> the address \<open>a\<close>. \<open>gprs\<close> has one slot
  more than there are registers (for the PC). The memory the pointers point into is a
  separate argument of the readers.
\<close>

record Riscv64Context =
  gprs :: "nat \<Rightarrow> nat option"
  fprs :: "nat \<Rightarrow> nat option"

definition IsAccessibleGPR :: "bool \<Rightarrow> Riscv64Context \<Rightarrow> nat \<Rightarrow> check_error + bool" where
  "IsAccessibleGPR dchecks ctx reg =
     (if dchecks \<and> \<not> reg < kNumberOfGpuRegisters + 1 then Inl DCheckFailed
      else if \<not> reg < kNumberOfGpuRegisters + 1 then Inl Unreachable
      else Inr (gprs ctx reg \<noteq> None))"

definition GetGPR ::
  "bool \<Rightarrow> Riscv64Context \<Rightarrow> (nat \<Rightarrow> 64 word) \<Rightarrow> nat \<Rightarrow> check_error + 64 word" where
  "GetGPR dchecks ctx mem reg =
     (if \<not> reg < kNumberOfGpuRegisters then Inl CheckFailed
      else if dchecks \<and> IsAccessibleGPR dchecks ctx reg \<noteq> Inr True then Inl DCheckFailed
      else (case gprs ctx reg of
              None \<Rightarrow> Inl NullDereference
            | Some a \<Rightarrow> Inr (mem a)))"

definition IsAccessibleFPR :: "Riscv64Context \<Rightarrow> nat \<Rightarrow> check_error + bool" where
  "IsAccessibleFPR ctx reg =
     (if \<not> reg < kNumberOfFpuRegisters then Inl CheckFailed
      else Inr (fprs ctx reg \<noteq> None))"

definition GetFPR ::
  "bool \<Rightarrow> Riscv64Context \<Rightarrow> (nat \<Rightarrow> 64 word) \<Rightarrow> nat \<Rightarrow> check_error + 64 word" where
  "GetFPR dchecks ctx mem reg =
     (if \<not> reg < kNumberOfFpuRegisters then Inl CheckFailed
      else if dchecks \<and> IsAccessibleFPR ctx reg \<noteq> Inr True then Inl DCheckFailed
      else (case fprs ctx reg of
              None \<Rightarrow> Inl NullDereference
            | Some a \<Rightarrow> Inr (mem a)))"

section \<open>Dex overflow test: the build script\<close>

text \<open>Decimal rendering of a number, as awk's \<open>%d\<close> prints it.\<close>

definition digit_char :: "nat \<Rightarrow> char" where
  "digit_char d = char_of (48 + d)"

fun decimal :: "nat \<Rightarrow> string" where
  "decimal n = (if n < 10 then [digit_char n] else decimal (n div 10) @ [digit_char (n mod 10)])"

declare decimal.simps [simp del]

text \<open>
  The awk program: each function writes one file, given here as its path and its
  lines (every \<open>printf\<close> of the program ends its line).
\<close>

definition writeFileField :: "string \<Rightarrow> string \<Rightarrow> string \<times> string list" where
  "writeFileField name type =
     (''src/'' @ name @ ''.java'',
      [''public class '' @ name @ '' {'']
        @ map (\<lambda>i. ''    '' @ type @ decimal i @ '';'') [1..<Suc 65500]
        @ [''}''])"

definition writeFileMethod :: "string \<Rightarrow> string \<times> string list" where
  "writeFileMethod name =
     (''src/'' @ name @ ''.java'',
      [''public class '' @ name @ '' {'']
        @ map (\<lambda>i. ''    public void meth'' @ decimal i @ ''() { }'') [1..<Suc 65500]
        @ [''}''])"

definition generated_sources :: "(string \<times> string list) list" where
  "generated_sources =
     [writeFileField ''FillerStatic'' ''static public int staticInt'',
      writeFileField ''FillerField'' ''public int fieldInt'',
      writeFileMethod ''FillerMethod'']"

text \<open>The member lines of a generated file: all but the class header and the closing brace.\<close>

definition member_lines :: "string \<times> string list \<Rightarrow> string list" where
  "member_lines f = butlast (tl (snd f))"

text \<open>
  \<open>./default-build\<close> is not part of the script: it is a parameter, taking the source
  files written before, the exported environment and the arguments, and giving its exit
  status and what it wrote to standard error.
\<close>

record BuildResult =
  exit_status :: nat
  stderr_text :: string

type_synonym default_build =
  "(string \<times> string list) list \<Rightarrow> (string \<times> string) list \<Rightarrow> string list \<Rightarrow> BuildResult"

definition EXPECTED_ERROR :: string where
  "EXPECTED_ERROR = ''Cannot fit requested classes in a single dex''"

text \<open>\<open>grep -q\<close> with a pattern free of special characters: exit status 0 when some
  line of the text contains the pattern, 1 otherwise.\<close>

fun contains :: "string \<Rightarrow> string \<Rightarrow> bool" where
  "contains pat [] = (pat = [])"
| "contains pat (c # cs) = (take (length pat) (c # cs) = pat \<or> contains pat cs)"

fun lines_acc :: "string \<Rightarrow> string \<Rightarrow> string list" where
  "lines_acc cur [] = (if cur = [] then [] else [cur])"
| "lines_acc cur (c # cs) =
     (if c = CHR 0x0A then cur # lines_acc [] cs else lines_acc (cur @ [c]) cs)"

definition grep_q :: "string \<Rightarrow> string \<Rightarrow> nat" where
  "grep_q pat text = (if list_ex (contains pat) (lines_acc [] text) then 0 else 1)"

text \<open>
  The script under \<open>set -e\<close>; the result is its exit status. \<open>mkdir src\<close> may fail
  (\<open>mkdir_ok\<close>) and stops the script then. The status of the build is replaced by
  that of \<open>true\<close> (\<open>|| true\<close>), so the script goes on to its last command, whose
  status is the script's.
\<close>

definition run_build_script :: "bool \<Rightarrow> default_build \<Rightarrow> string list \<Rightarrow> nat" where
  "run_build_script mkdir_ok build args =
     (if \<not> mkdir_ok then 1
      else
        (let srcs = generated_sources;
             env = [(''NEED_DEX'', ''true'')];
             r = build srcs env ([''--api-level'', ''20''] @ args);
             build_or_true = (if exit_status r = 0 then 0 else (0::nat));
             stderr_txt = stderr_text r
         in grep_q EXPECTED_ERROR stderr_txt))"

section \<open>RISC-V 64 assembler (assembler\_riscv64.cc)\<close>

subsection \<open>Registers and instruction encodings\<close>

text \<open>
  A general-purpose register is its 5-bit number. \<open>ZERO\<close> and \<open>RA\<close> are x0 and x1;
  the scratch registers \<open>AT\<close>, \<open>TMP\<close> and \<open>TMP2\<close> are named in
  registers\_riscv64.h, which is not among the sources, so the functions that use one
  take it as an argument.
\<close>

type_synonym GpuRegister = "5 word"

definition ZERO :: GpuRegister where "ZERO = 0"
definition RA :: GpuRegister where "RA = 1"

text \<open>\<open>IsInt<N>(v)\<close> and \<open>IsUint<N>(v)\<close> of base/bit\_utils.h.\<close>

definition IsInt :: "nat \<Rightarrow> int \<Rightarrow> bool" where
  "IsInt n v = (- (2 ^ (n - 1)) \<le> v \<and> v < 2 ^ (n - 1))"

definition IsUint :: "nat \<Rightarrow> int \<Rightarrow> bool" where
  "IsUint n v = (0 \<le> v \<and> v < 2 ^ n)"

text \<open>The encoders build the 32-bit instruction word that \<open>Emit\<close> stores.
  Shifts are on \<open>uint32_t\<close>, so bits shifted beyond bit 31 are lost.\<close>

definition EmitI :: "16 word \<Rightarrow> GpuRegister \<Rightarrow> 32 word \<Rightarrow> GpuRegister \<Rightarrow> 32 word \<Rightarrow> 32 word" where
  "EmitI imm rs1 funct3 rd opcode =
     push_bit 20 (ucast imm) OR push_bit 15 (ucast rs1) OR push_bit 12 funct3
       OR push_bit 7 (ucast rd) OR opcode"

definition EmitR :: "32 word \<Rightarrow> GpuRegister \<Rightarrow> GpuRegister \<Rightarrow> 32 word \<Rightarrow> GpuRegister \<Rightarrow> 32 word \<Rightarrow> 32 word" where
  "EmitR funct7 rs2 rs1 funct3 rd opcode =
     push_bit 25 funct7 OR push_bit 20 (ucast rs2) OR push_bit 15 (ucast rs1)
       OR push_bit 12 funct3 OR push_bit 7 (ucast rd) OR opcode"

definition EmitI6 :: "16 word \<Rightarrow> 16 word \<Rightarrow> GpuRegister \<Rightarrow> 32 word \<Rightarrow> GpuRegister \<Rightarrow> 32 word \<Rightarrow> 32 word" where
  "EmitI6 funct6 imm6 rs1 funct3 rd opcode =
     push_bit 26 (ucast funct6) OR push_bit 20 (ucast imm6 AND 0x3F)
       OR push_bit 15 (ucast rs1) OR push_bit 12 funct3 OR push_bit 7 (ucast rd) OR opcode"

definition EmitB :: "16 word \<Rightarrow> GpuRegister \<Rightarrow> GpuRegister \<Rightarrow> 32 word \<Rightarrow> 32 word \<Rightarrow> check_error + 32 word" where
  "EmitB imm rs2 rs1 funct3 opcode =
     (if \<not> IsUint 13 (uint imm) then Inl CheckFailed
      else Inr (push_bit 31 (drop_bit 12 (ucast imm AND 0x1000))
                OR push_bit 25 (drop_bit 5 (ucast imm AND 0x07E0))
                OR push_bit 20 (ucast rs2) OR push_bit 15 (ucast rs1) OR push_bit 12 funct3
                OR push_bit 8 (drop_bit 1 (ucast imm AND 0x1E))
                OR push_bit 7 (drop_bit 11 (ucast imm AND 0x0800))
                OR opcode))"

definition EmitU :: "32 word \<Rightarrow> GpuRegister \<Rightarrow> 32 word \<Rightarrow> 32 word" where
  "EmitU imm rd opcode = push_bit 12 imm OR push_bit 7 (ucast rd) OR opcode"

definition EmitJ :: "32 word \<Rightarrow> GpuRegister \<Rightarrow> 32 word \<Rightarrow> check_error + 32 word" where
  "EmitJ imm20 rd opcode =
     (if \<not> IsUint 21 (uint imm20) then Inl CheckFailed
      else Inr (push_bit 31 (drop_bit 20 (imm20 AND 0x100000))
                OR push_bit 21 (drop_bit 1 (imm20 AND 0x07FE))
                OR push_bit 20 (drop_bit 11 (imm20 AND 0x800))
                OR push_bit 12 (drop_bit 12 (imm20 AND 0xFF000))
                OR push_bit 7 (ucast rd) OR opcode))"

text \<open>The instruction emitters used below; each gives the words it emits, in order.\<close>

definition Addi :: "GpuRegister \<Rightarrow> GpuRegister \<Rightarrow> 16 word \<Rightarrow> 32 word list" where
  "Addi rd rs1 offset = [EmitI offset rs1 0x0 rd 0x13]"

definition Slli :: "GpuRegister \<Rightarrow> GpuRegister \<Rightarrow> 16 word \<Rightarrow> 32 word list" where
  "Slli rd rs1 offset = (if rd \<noteq> rs1 \<or> offset \<noteq> 0 then [EmitI6 0x0 offset rs1 0x1 rd 0x13] else [])"

definition Srli :: "GpuRegister \<Rightarrow> GpuRegister \<Rightarrow> 16 word \<Rightarrow> 32 word list" where
  "Srli rd rs1 offset = (if rd \<noteq> rs1 \<or> offset \<noteq> 0 then [EmitI6 0x0 offset rs1 0x5 rd 0x13] else [])"

definition Or :: "GpuRegister \<Rightarrow> GpuRegister \<Rightarrow> GpuRegister \<Rightarrow> 32 word list" where
  "Or rd rs1 rs2 = [EmitR 0x0 rs2 rs1 0x06 rd 0x33]"

definition Addiw :: "GpuRegister \<Rightarrow> GpuRegister \<Rightarrow> 16 word \<Rightarrow> 32 word list" where
  "Addiw rd rs1 imm12 = [EmitI imm12 rs1 0x0 rd 0x1b]"

definition Lui :: "GpuRegister \<Rightarrow> 32 word \<Rightarrow> 32 word list" where
  "Lui rd imm20 = [EmitU imm20 rd 0x37]"

definition Auipc :: "GpuRegister \<Rightarrow> 32 word \<Rightarrow> 32 word" where
  "Auipc rd imm20 = EmitU imm20 rd 0x17"

definition Jalr :: "GpuRegister \<Rightarrow> GpuRegister \<Rightarrow> 16 word \<Rightarrow> 32 word" where
  "Jalr rd rs1 offset = EmitI offset rs1 0x0 rd 0x67"

definition Jal :: "GpuRegister \<Rightarrow> 32 word \<Rightarrow> check_error + 32 word" where
  "Jal rd imm20 = EmitJ imm20 rd 0x6F"

definition Nop :: "32 word" where
  "Nop = EmitI 0 ZERO 0x0 ZERO 0x13"

subsection \<open>Loading constants\<close>

text \<open>\<open>value\<close> is the \<open>int32_t\<close> argument; passing it on as \<open>uint16_t\<close>,
  \<open>int16_t\<close> or \<open>uint32_t\<close> keeps its low bits.\<close>

definition LoadConst32 :: "GpuRegister \<Rightarrow> 32 word \<Rightarrow> 32 word list" where
  "LoadConst32 rd v =
     (if IsInt 12 (sint v) then Addi rd ZERO (ucast v)
      else
        (let l = v AND 0xFFF;
             h = signed_drop_bit 12 v;
             h = (if l AND 0x800 \<noteq> 0 then h + 1 else h)
         in Lui rd h @ (if l \<noteq> 0 then Addiw rd rd (ucast l) else [])))"

definition LoadConst64 :: "GpuRegister \<Rightarrow> GpuRegister \<Rightarrow> 64 word \<Rightarrow> 32 word list" where
  "LoadConst64 TMP2 rd v =
     (if IsInt 32 (sint v) then LoadConst32 rd (ucast v)
      else
        (let hi = (ucast (signed_drop_bit 32 v) :: 32 word);
             lo = (ucast v :: 32 word);
             scratch = TMP2
         in LoadConst32 scratch lo @ LoadConst32 rd hi @ Slli rd rd 32
              @ Slli scratch scratch 32 @ Srli scratch scratch 32 @ Or rd rd scratch))"

subsection \<open>Meaning of the emitted integer instructions\<close>

text \<open>
  What an instruction word does when executed is fixed by the RV64I base instruction
  set, not by the assembler. The fields are cut out of the word as the ISA lays them
  out, and the few instructions that constant loading emits are interpreted on a
  register file in which x0 always reads as zero. Any other word is not interpreted.
\<close>

type_synonym regfile = "GpuRegister \<Rightarrow> 64 word"

definition opcode_of :: "32 word \<Rightarrow> 7 word" where "opcode_of w = ucast w"
definition rd_of :: "32 word \<Rightarrow> GpuRegister" where "rd_of w = ucast (drop_bit 7 w)"
definition funct3_of :: "32 word \<Rightarrow> 3 word" where "funct3_of w = ucast (drop_bit 12 w)"
definition rs1_of :: "32 word \<Rightarrow> GpuRegister" where "rs1_of w = ucast (drop_bit 15 w)"
definition rs2_of :: "32 word \<Rightarrow> GpuRegister" where "rs2_of w = ucast (drop_bit 20 w)"
definition shamt_of :: "32 word \<Rightarrow> 6 word" where "shamt_of w = ucast (drop_bit 20 w)"
definition funct6_of :: "32 word \<Rightarrow> 6 word" where "funct6_of w = ucast (drop_bit 26 w)"
definition funct7_of :: "32 word \<Rightarrow> 7 word" where "funct7_of w = ucast (drop_bit 25 w)"

definition imm_i :: "32 word \<Rightarrow> 12 word" where "imm_i w = ucast (drop_bit 20 w)"
definition imm_u :: "32 word \<Rightarrow> 32 word" where "imm_u w = w AND 0xFFFFF000"

definition get_reg :: "regfile \<Rightarrow> GpuRegister \<Rightarrow> 64 word" where
  "get_reg rf r = (if r = 0 then 0 else rf r)"

definition set_reg :: "regfile \<Rightarrow> GpuRegister \<Rightarrow> 64 word \<Rightarrow> regfile" where
  "set_reg rf r v = (if r = 0 then rf else rf(r := v))"

definition sext32 :: "64 word \<Rightarrow> 64 word" where
  "sext32 x = scast (ucast x :: 32 word)"

definition exec_instr :: "32 word \<Rightarrow> regfile \<Rightarrow> regfile option" where
  "exec_instr w rf =
     (if opcode_of w = 0x13 \<and> funct3_of w = 0 then
        Some (set_reg rf (rd_of w) (get_reg rf (rs1_of w) + scast (imm_i w)))
      else if opcode_of w = 0x13 \<and> funct3_of w = 1 \<and> funct6_of w = 0 then
        Some (set_reg rf (rd_of w) (push_bit (unat (shamt_of w)) (get_reg rf (rs1_of w))))
      else if opcode_of w = 0x13 \<and> funct3_of w = 5 \<and> funct6_of w = 0 then
        Some (set_reg rf (rd_of w) (drop_bit (unat (shamt_of w)) (get_reg rf (rs1_of w))))
      else if opcode_of w = 0x1b \<and> funct3_of w = 0 then
        Some (set_reg rf (rd_of w) (sext32 (get_reg rf (rs1_of w) + scast (imm_i w))))
      else if opcode_of w = 0x37 then
        Some (set_reg rf (rd_of w) (scast (imm_u w)))
      else if opcode_of w = 0x33 \<and> funct3_of w = 6 \<and> funct7_of w = 0 then
        Some (set_reg rf (rd_of w) (get_reg rf (rs1_of w) OR get_reg rf (rs2_of w)))
      else None)"

fun exec_seq :: "32 word list \<Rightarrow> regfile \<Rightarrow> regfile option" where
  "exec_seq [] rf = Some rf"
| "exec_seq (w # ws) rf =
     (case exec_instr w rf of None \<Rightarrow> None | Some rf' \<Rightarrow> exec_seq ws rf')"

subsection \<open>Branches\<close>

datatype BranchCondition =
    kCondLT | kCondGE | kCondLE | kCondGT | kCondLTZ | kCondGEZ | kCondLEZ | kCondGTZ
  | kCondEQ | kCondNE | kCondEQZ | kCondNEZ | kCondLTU | kCondGEU | kUncond

datatype BranchType =
    kUncondBranch | kCondBranch | kCall
  | kBareUncondBranch | kBareCondBranch | kBareCall
  | kLabel
  | kLiteral | kLiteralUnsigned | kLiteralLong
  | kLongUncondBranch | kLongCondBranch | kLongCall

text \<open>The values of \<open>enum OffsetBits\<close> are the bit counts themselves.\<close>

definition kOffset13 :: nat where "kOffset13 = 13"
definition kOffset21 :: nat where "kOffset21 = 21"
definition kOffset32 :: nat where "kOffset32 = 32"

definition kUnresolved :: "32 word" where "kUnresolved = 0xffffffff"
definition kMaxBranchLength :: int where "kMaxBranchLength = 32"
definition kMaxBranchSize :: int where "kMaxBranchSize = kMaxBranchLength * 4"

definition Low12Bits :: "32 word \<Rightarrow> 16 word" where
  "Low12Bits v = ucast (v AND 0xFFF)"

definition High20Bits :: "32 word \<Rightarrow> 32 word" where
  "High20Bits v = drop_bit 12 v"

record BranchInfo =
  br_length :: nat
  instr_offset :: nat
  pc_org :: nat
  offset_size :: nat
  offset_shift :: nat

fun branch_info :: "BranchType \<Rightarrow> BranchInfo" where
  "branch_info kUncondBranch = \<lparr>br_length = 1, instr_offset = 0, pc_org = 0, offset_size = kOffset21, offset_shift = 0\<rparr>"
| "branch_info kCondBranch = \<lparr>br_length = 1, instr_offset = 0, pc_org = 0, offset_size = kOffset13, offset_shift = 0\<rparr>"
| "branch_info kCall = \<lparr>br_length = 1, instr_offset = 0, pc_org = 0, offset_size = kOffset21, offset_shift = 0\<rparr>"
| "branch_info kBareUncondBranch = \<lparr>br_length = 1, instr_offset = 0, pc_org = 0, offset_size = kOffset21, offset_shift = 0\<rparr>"
| "branch_info kBareCondBranch = \<lparr>br_length = 1, instr_offset = 0, pc_org = 0, offset_size = kOffset13, offset_shift = 0\<rparr>"
| "branch_info kBareCall = \<lparr>br_length = 1, instr_offset = 0, pc_org = 0, offset_size = kOffset21, offset_shift = 0\<rparr>"
| "branch_info kLabel = \<lparr>br_length = 2, instr_offset = 0, pc_org = 0, offset_size = kOffset32, offset_shift = 0\<rparr>"
| "branch_info kLiteral = \<lparr>br_length = 2, instr_offset = 0, pc_org = 0, offset_size = kOffset32, offset_shift = 0\<rparr>"
| "branch_info kLiteralUnsigned = \<lparr>br_length = 2, instr_offset = 0, pc_org = 0, offset_size = kOffset32, offset_shift = 0\<rparr>"
| "branch_info kLiteralLong = \<lparr>br_length = 2, instr_offset = 0, pc_org = 0, offset_size = kOffset32, offset_shift = 0\<rparr>"
| "branch_info kLongUncondBranch = \<lparr>br_length = 2, instr_offset = 0, pc_org = 0, offset_size = kOffset32, offset_shift = 0\<rparr>"
| "branch_info kLongCondBranch = \<lparr>br_length = 3, instr_offset = 1, pc_org = 0, offset_size = kOffset32, offset_shift = 0\<rparr>"
| "branch_info kLongCall = \<lparr>br_length = 2, instr_offset = 0, pc_org = 0, offset_size = kOffset32, offset_shift = 0\<rparr>"

text \<open>A branch; the members are named as in the source without the trailing
  underscore, \<open>type_\<close> and \<open>old_type_\<close> are \<open>btype\<close> and \<open>old_btype\<close>.\<close>

record Branch =
  old_location :: "32 word"
  location :: "32 word"
  target :: "32 word"
  lhs_reg :: GpuRegister
  rhs_reg :: GpuRegister
  condition :: BranchCondition
  btype :: BranchType
  old_btype :: BranchType

definition IsNop :: "BranchCondition \<Rightarrow> GpuRegister \<Rightarrow> GpuRegister \<Rightarrow> bool" where
  "IsNop cond lhs rhs =
     (case cond of
        kCondLT \<Rightarrow> lhs = rhs
      | kCondGT \<Rightarrow> lhs = rhs
      | kCondNE \<Rightarrow> lhs = rhs
      | kCondLTU \<Rightarrow> lhs = rhs
      | _ \<Rightarrow> False)"

definition IsUncond :: "BranchCondition \<Rightarrow> GpuRegister \<Rightarrow> GpuRegister \<Rightarrow> bool" where
  "IsUncond cond lhs rhs =
     (case cond of
        kUncond \<Rightarrow> True
      | kCondGE \<Rightarrow> lhs = rhs
      | kCondLE \<Rightarrow> lhs = rhs
      | kCondEQ \<Rightarrow> lhs = rhs
      | kCondGEU \<Rightarrow> lhs = rhs
      | _ \<Rightarrow> False)"

fun OppositeCondition :: "BranchCondition \<Rightarrow> check_error + BranchCondition" where
  "OppositeCondition kCondLT = Inr kCondGE"
| "OppositeCondition kCondGE = Inr kCondLT"
| "OppositeCondition kCondLE = Inr kCondGT"
| "OppositeCondition kCondGT = Inr kCondLE"
| "OppositeCondition kCondLTZ = Inr kCondGEZ"
| "OppositeCondition kCondGEZ = Inr kCondLTZ"
| "OppositeCondition kCondLEZ = Inr kCondGTZ"
| "OppositeCondition kCondGTZ = Inr kCondLEZ"
| "OppositeCondition kCondEQ = Inr kCondNE"
| "OppositeCondition kCondNE = Inr kCondEQ"
| "OppositeCondition kCondEQZ = Inr kCondNEZ"
| "OppositeCondition kCondNEZ = Inr kCondEQZ"
| "OppositeCondition kCondLTU = Inr kCondGEU"
| "OppositeCondition kCondGEU = Inr kCondLTU"
| "OppositeCondition kUncond = Inl CheckFailed"

definition GetLength :: "Branch \<Rightarrow> nat" where
  "GetLength b = br_length (branch_info (btype b))"

definition GetOldLength :: "Branch \<Rightarrow> nat" where
  "GetOldLength b = br_length (branch_info (old_btype b))"

definition GetSize :: "Branch \<Rightarrow> 32 word" where
  "GetSize b = of_nat (GetLength b) * 4"

definition GetOldSize :: "Branch \<Rightarrow> 32 word" where
  "GetOldSize b = of_nat (GetOldLength b) * 4"

definition GetEndLocation :: "Branch \<Rightarrow> 32 word" where
  "GetEndLocation b = location b + GetSize b"

definition GetOldEndLocation :: "Branch \<Rightarrow> 32 word" where
  "GetOldEndLocation b = old_location b + GetOldSize b"

definition IsBare :: "Branch \<Rightarrow> bool" where
  "IsBare b = (btype b = kBareUncondBranch \<or> btype b = kBareCondBranch \<or> btype b = kBareCall)"

fun IsLongType :: "BranchType \<Rightarrow> bool" where
  "IsLongType kUncondBranch = False"
| "IsLongType kCondBranch = False"
| "IsLongType kCall = False"
| "IsLongType kBareUncondBranch = False"
| "IsLongType kBareCondBranch = False"
| "IsLongType kBareCall = False"
| "IsLongType kLongUncondBranch = True"
| "IsLongType kLongCondBranch = True"
| "IsLongType kLongCall = True"
| "IsLongType kLabel = True"
| "IsLongType kLiteral = True"
| "IsLongType kLiteralUnsigned = True"
| "IsLongType kLiteralLong = True"

definition IsLong :: "Branch \<Rightarrow> bool" where
  "IsLong b = IsLongType (btype b)"

definition IsResolved :: "Branch \<Rightarrow> bool" where
  "IsResolved b = (target b \<noteq> kUnresolved)"

definition GetOffsetSize :: "Branch \<Rightarrow> nat" where
  "GetOffsetSize b = offset_size (branch_info (btype b))"

definition GetOffsetSizeNeeded :: "32 word \<Rightarrow> 32 word \<Rightarrow> nat" where
  "GetOffsetSizeNeeded loc tgt =
     (if tgt = kUnresolved then kOffset13
      else
        (let distance = uint tgt - uint loc;
             distance = distance + (if distance \<ge> 0 then kMaxBranchSize else - kMaxBranchSize)
         in if IsInt kOffset13 distance then kOffset13
            else if IsInt kOffset21 distance then kOffset21
            else kOffset32))"

definition Resolve :: "Branch \<Rightarrow> 32 word \<Rightarrow> Branch" where
  "Resolve b tgt = b\<lparr>target := tgt\<rparr>"

definition Relocate :: "Branch \<Rightarrow> 32 word \<Rightarrow> 32 word \<Rightarrow> Branch" where
  "Relocate b expand_location delta =
     (let b = (if location b > expand_location then b\<lparr>location := location b + delta\<rparr> else b)
      in if \<not> IsResolved b then b
         else if target b > expand_location then b\<lparr>target := target b + delta\<rparr>
         else b)"

definition InitShortOrLong :: "nat \<Rightarrow> BranchType \<Rightarrow> BranchType \<Rightarrow> BranchType" where
  "InitShortOrLong offset_size_needed short_type long_type =
     (if offset_size_needed \<le> offset_size (branch_info short_type) then short_type else long_type)"

definition InitializeType :: "Branch \<Rightarrow> BranchType \<Rightarrow> check_error + Branch" where
  "InitializeType b initial_type =
     (let offset_size_needed = GetOffsetSizeNeeded (location b) (target b);
          set_type = (\<lambda>t. b\<lparr>btype := t, old_btype := t\<rparr>);
          set_bare = (\<lambda>t. if \<not> offset_size_needed \<le> offset_size (branch_info t)
                           then Inl CheckFailed else Inr (set_type t))
      in case initial_type of
           kLabel \<Rightarrow> if IsResolved b then Inl CheckFailed else Inr (set_type initial_type)
         | kLiteral \<Rightarrow> if IsResolved b then Inl CheckFailed else Inr (set_type initial_type)
         | kLiteralUnsigned \<Rightarrow> if IsResolved b then Inl CheckFailed else Inr (set_type initial_type)
         | kLiteralLong \<Rightarrow> if IsResolved b then Inl CheckFailed else Inr (set_type initial_type)
         | kCall \<Rightarrow> Inr (set_type (InitShortOrLong offset_size_needed kCall kLongCall))
         | kCondBranch \<Rightarrow>
             (if condition b = kUncond
              then Inr (set_type (InitShortOrLong offset_size_needed kUncondBranch kLongUncondBranch))
              else Inr (set_type (InitShortOrLong offset_size_needed kCondBranch kLongCondBranch)))
         | kBareCall \<Rightarrow> set_bare kBareCall
         | kBareCondBranch \<Rightarrow>
             set_bare (if condition b = kUncond then kBareUncondBranch else kBareCondBranch)
         | _ \<Rightarrow> Inl Unreachable)"

text \<open>The three constructors. Before \<open>InitializeType\<close> runs the type members are not
  yet set; the placeholder put there is never read.\<close>

definition Branch_uncond :: "32 word \<Rightarrow> 32 word \<Rightarrow> bool \<Rightarrow> bool \<Rightarrow> check_error + Branch" where
  "Branch_uncond loc tgt is_call is_bare =
     InitializeType
       \<lparr>old_location = loc, location = loc, target = tgt, lhs_reg = ZERO, rhs_reg = ZERO,
        condition = kUncond, btype = kUncondBranch, old_btype = kUncondBranch\<rparr>
       (if is_call then (if is_bare then kBareCall else kCall)
        else (if is_bare then kBareCondBranch else kCondBranch))"

definition cond_operands_ok :: "BranchCondition \<Rightarrow> GpuRegister \<Rightarrow> GpuRegister \<Rightarrow> check_error + unit" where
  "cond_operands_ok cond lhs rhs =
     (case cond of
        kUncond \<Rightarrow> Inl Unreachable
      | kCondLTZ \<Rightarrow> if lhs \<noteq> ZERO \<and> rhs = ZERO then Inr () else Inl CheckFailed
      | kCondGEZ \<Rightarrow> if lhs \<noteq> ZERO \<and> rhs = ZERO then Inr () else Inl CheckFailed
      | kCondLEZ \<Rightarrow> if lhs \<noteq> ZERO \<and> rhs = ZERO then Inr () else Inl CheckFailed
      | kCondGTZ \<Rightarrow> if lhs \<noteq> ZERO \<and> rhs = ZERO then Inr () else Inl CheckFailed
      | kCondEQZ \<Rightarrow> if lhs \<noteq> ZERO \<and> rhs = ZERO then Inr () else Inl CheckFailed
      | kCondNEZ \<Rightarrow> if lhs \<noteq> ZERO \<and> rhs = ZERO then Inr () else Inl CheckFailed
      | _ \<Rightarrow> if lhs \<noteq> ZERO \<and> rhs \<noteq> ZERO then Inr () else Inl CheckFailed)"

definition Branch_cond ::
  "32 word \<Rightarrow> 32 word \<Rightarrow> BranchCondition \<Rightarrow> GpuRegister \<Rightarrow> GpuRegister \<Rightarrow> bool
     \<Rightarrow> check_error + Branch" where
  "Branch_cond loc tgt cond lhs rhs is_bare =
     (case cond_operands_ok cond lhs rhs of
        Inl e \<Rightarrow> Inl e
      | Inr _ \<Rightarrow>
          if IsNop cond lhs rhs then Inl CheckFailed
          else
            InitializeType
              \<lparr>old_location = loc, location = loc, target = tgt, lhs_reg = lhs, rhs_reg = rhs,
               condition = (if IsUncond cond lhs rhs then kUncond else cond),
               btype = kUncondBranch, old_btype = kUncondBranch\<rparr>
              (if is_bare then kBareCondBranch else kCondBranch))"

definition Branch_label :: "32 word \<Rightarrow> GpuRegister \<Rightarrow> BranchType \<Rightarrow> check_error + Branch" where
  "Branch_label loc dest_reg label_or_literal_type =
     (if dest_reg = ZERO then Inl CheckFailed
      else InitializeType
             \<lparr>old_location = loc, location = loc, target = kUnresolved, lhs_reg = dest_reg,
              rhs_reg = ZERO, condition = kUncond, btype = kUncondBranch,
              old_btype = kUncondBranch\<rparr>
             label_or_literal_type)"

definition PromoteToLong :: "Branch \<Rightarrow> check_error + Branch" where
  "PromoteToLong b =
     (if IsBare b then Inl CheckFailed
      else
        (let b' = (case btype b of
                     kUncondBranch \<Rightarrow> b\<lparr>btype := kLongUncondBranch\<rparr>
                   | kCondBranch \<Rightarrow> b\<lparr>btype := kLongCondBranch\<rparr>
                   | kCall \<Rightarrow> b\<lparr>btype := kLongCall\<rparr>
                   | _ \<Rightarrow> b)
         in if \<not> IsLong b' then Inl CheckFailed else Inr b'))"

definition kDefaultMaxShortDistance :: "32 word" where
  "kDefaultMaxShortDistance = 0xffffffff"

definition promote_and_measure :: "Branch \<Rightarrow> check_error + Branch \<times> 32 word" where
  "promote_and_measure b =
     (case PromoteToLong b of
        Inl e \<Rightarrow> Inl e
      | Inr b' \<Rightarrow>
          (let old_size = GetOldSize b'; new_size = GetSize b'
           in if \<not> new_size > old_size then Inl CheckFailed
              else Inr (b', new_size - old_size)))"

definition PromoteIfNeeded :: "Branch \<Rightarrow> 32 word \<Rightarrow> check_error + Branch \<times> 32 word" where
  "PromoteIfNeeded b max_short_distance =
     (if IsLong b \<or> \<not> IsResolved b then Inr (b, 0)
      else if GetOffsetSizeNeeded (location b) (target b) > GetOffsetSize b
      then promote_and_measure b
      else if max_short_distance \<noteq> kDefaultMaxShortDistance \<and> \<not> IsBare b
              \<and> \<bar>uint (target b) - uint (location b)\<bar> \<ge> uint max_short_distance
      then promote_and_measure b
      else Inr (b, 0))"

definition GetOffsetLocation :: "Branch \<Rightarrow> 32 word" where
  "GetOffsetLocation b = location b + of_nat (instr_offset (branch_info (btype b))) * 4"

definition GetOffset :: "Branch \<Rightarrow> check_error + 32 word" where
  "GetOffset b =
     (if \<not> IsResolved b then Inl CheckFailed
      else
        (let ofs_mask = drop_bit (32 - GetOffsetSize b) (0xFFFFFFFF :: 32 word);
             offset_location = GetOffsetLocation b;
             offset = target b - offset_location - of_nat (pc_org (branch_info (btype b))) * 4
         in Inr (drop_bit (offset_shift (branch_info (btype b))) (offset AND ofs_mask))))"

subsection \<open>Emitting a branch\<close>

definition Lw :: "GpuRegister \<Rightarrow> GpuRegister \<Rightarrow> 16 word \<Rightarrow> 32 word" where
  "Lw rd rs1 offset = EmitI offset rs1 0x2 rd 0x03"

definition Ld :: "GpuRegister \<Rightarrow> GpuRegister \<Rightarrow> 16 word \<Rightarrow> 32 word" where
  "Ld rd rs1 offset = EmitI offset rs1 0x3 rd 0x03"

definition Lwu :: "GpuRegister \<Rightarrow> GpuRegister \<Rightarrow> 16 word \<Rightarrow> 32 word" where
  "Lwu rd rs1 offset = EmitI offset rs1 0x6 rd 0x03"

text \<open>\<open>Bltc\<close>, \<open>Bgec\<close>, \<open>Bltuc\<close>, \<open>Bgeuc\<close>, \<open>Beqc\<close> and \<open>Bnec\<close> differ in the
  \<open>funct3\<close> of the branch they emit only; so do the compare-with-zero forms.\<close>

definition compare_branch ::
  "32 word \<Rightarrow> GpuRegister \<Rightarrow> GpuRegister \<Rightarrow> 16 word \<Rightarrow> check_error + 32 word" where
  "compare_branch funct3 rs rt imm12 =
     (if rs = ZERO \<or> rt = ZERO \<or> rs = rt then Inl CheckFailed
      else EmitB imm12 rt rs funct3 0x63)"

definition Bltc where "Bltc = compare_branch 0x4"
definition Bgec where "Bgec = compare_branch 0x5"
definition Bltuc where "Bltuc = compare_branch 0x6"
definition Bgeuc where "Bgeuc = compare_branch 0x7"
definition Beqc where "Beqc = compare_branch 0x0"
definition Bnec where "Bnec = compare_branch 0x1"

definition Bltzc :: "GpuRegister \<Rightarrow> 16 word \<Rightarrow> check_error + 32 word" where
  "Bltzc rt imm12 = (if rt = ZERO then Inl CheckFailed else EmitB imm12 ZERO rt 0x4 0x63)"

definition Bgtzc :: "GpuRegister \<Rightarrow> 16 word \<Rightarrow> check_error + 32 word" where
  "Bgtzc rt imm12 = (if rt = ZERO then Inl CheckFailed else EmitB imm12 rt ZERO 0x4 0x63)"

definition Bgezc :: "GpuRegister \<Rightarrow> 16 word \<Rightarrow> check_error + 32 word" where
  "Bgezc rt imm12 = (if rt = ZERO then Inl CheckFailed else EmitB imm12 ZERO rt 0x5 0x63)"

definition Blezc :: "GpuRegister \<Rightarrow> 16 word \<Rightarrow> check_error + 32 word" where
  "Blezc rt imm12 = (if rt = ZERO then Inl CheckFailed else EmitB imm12 rt ZERO 0x5 0x63)"

definition Beqzc :: "GpuRegister \<Rightarrow> 32 word \<Rightarrow> check_error + 32 word" where
  "Beqzc rs imm12 = (if rs = ZERO then Inl CheckFailed else EmitB (ucast imm12) ZERO rs 0x0 0x63)"

definition Bnezc :: "GpuRegister \<Rightarrow> 32 word \<Rightarrow> check_error + 32 word" where
  "Bnezc rs imm12 = (if rs = ZERO then Inl CheckFailed else EmitB (ucast imm12) ZERO rs 0x1 0x63)"

definition EmitBcond ::
  "BranchCondition \<Rightarrow> GpuRegister \<Rightarrow> GpuRegister \<Rightarrow> 32 word \<Rightarrow> check_error + 32 word" where
  "EmitBcond cond rs rt imm16_21 =
     (case cond of
        kCondLT \<Rightarrow> Bltc rs rt (ucast imm16_21)
      | kCondGE \<Rightarrow> Bgec rs rt (ucast imm16_21)
      | kCondLE \<Rightarrow> Bgec rt rs (ucast imm16_21)
      | kCondGT \<Rightarrow> Bltc rt rs (ucast imm16_21)
      | kCondLTZ \<Rightarrow> if rt \<noteq> ZERO then Inl CheckFailed else Bltzc rs (ucast imm16_21)
      | kCondGEZ \<Rightarrow> if rt \<noteq> ZERO then Inl CheckFailed else Bgezc rs (ucast imm16_21)
      | kCondLEZ \<Rightarrow> if rt \<noteq> ZERO then Inl CheckFailed else Blezc rs (ucast imm16_21)
      | kCondGTZ \<Rightarrow> if rt \<noteq> ZERO then Inl CheckFailed else Bgtzc rs (ucast imm16_21)
      | kCondEQ \<Rightarrow> Beqc rs rt (ucast imm16_21)
      | kCondNE \<Rightarrow> Bnec rs rt (ucast imm16_21)
      | kCondEQZ \<Rightarrow> if rt \<noteq> ZERO then Inl CheckFailed else Beqzc rs imm16_21
      | kCondNEZ \<Rightarrow> if rt \<noteq> ZERO then Inl CheckFailed else Bnezc rs imm16_21
      | kCondLTU \<Rightarrow> Bltuc rs rt (ucast imm16_21)
      | kCondGEU \<Rightarrow> Bgeuc rs rt (ucast imm16_21)
      | kUncond \<Rightarrow> Inl Unreachable)"

text \<open>The offset of a two-instruction form, after
  \<open>offset += (offset & 0x800) << 1\<close>.\<close>

definition adjust_offset :: "32 word \<Rightarrow> 32 word" where
  "adjust_offset offset = offset + push_bit 1 (offset AND 0x800)"

text \<open>
  \<open>EmitBranch\<close> gives the words written over the placeholder at \<open>location\<close>, in
  order. The checks on \<open>overwrite_location_\<close> compare the number of words written so
  far with \<open>instr_offset\<close> and \<open>length\<close> of \<open>branch_info_\<close>; they hold for every
  case below by the shape of the list, so no failure arises from them.
\<close>

definition EmitBranch :: "GpuRegister \<Rightarrow> Branch \<Rightarrow> check_error + 32 word list" where
  "EmitBranch AT b =
     (case GetOffset b of
        Inl e \<Rightarrow> Inl e
      | Inr offset \<Rightarrow>
         (let cond = condition b; lhs = lhs_reg b; rhs = rhs_reg b;
              one = (\<lambda>r. case r of Inl e \<Rightarrow> Inl e | Inr w \<Rightarrow> Inr [w]);
              long_offset = adjust_offset offset
          in case btype b of
               kUncondBranch \<Rightarrow> one (Jal ZERO offset)
             | kCondBranch \<Rightarrow> one (EmitBcond cond lhs rhs offset)
             | kCall \<Rightarrow> one (Jal RA offset)
             | kBareUncondBranch \<Rightarrow> one (Jal ZERO offset)
             | kBareCondBranch \<Rightarrow> one (EmitBcond cond lhs rhs offset)
             | kBareCall \<Rightarrow> one (Jal RA offset)
             | kLabel \<Rightarrow>
                 Inr (Auipc AT (High20Bits long_offset) # Addi lhs AT (Low12Bits long_offset))
             | kLiteral \<Rightarrow>
                 Inr [Auipc AT (High20Bits long_offset), Lw lhs AT (Low12Bits long_offset)]
             | kLiteralUnsigned \<Rightarrow>
                 Inr [Auipc AT (High20Bits long_offset), Lwu lhs AT (Low12Bits long_offset)]
             | kLiteralLong \<Rightarrow>
                 Inr [Auipc AT (High20Bits long_offset), Ld lhs AT (Low12Bits long_offset)]
             | kLongUncondBranch \<Rightarrow>
                 Inr [Auipc AT (High20Bits long_offset), Jalr ZERO AT (Low12Bits long_offset)]
             | kLongCondBranch \<Rightarrow>
                 (case OppositeCondition cond of
                    Inl e \<Rightarrow> Inl e
                  | Inr opp \<Rightarrow>
                     (case EmitBcond opp lhs rhs 12 of
                        Inl e \<Rightarrow> Inl e
                      | Inr w \<Rightarrow>
                          Inr [w, Auipc AT (High20Bits long_offset),
                               Jalr ZERO AT (Low12Bits long_offset)]))
             | kLongCall \<Rightarrow>
                 Inr [Auipc AT (High20Bits long_offset), Jalr RA AT (Low12Bits long_offset)]))"

subsection \<open>Offset fields as the processor reads them\<close>

text \<open>
  The immediates of the B, J, U and I formats of the RISC-V ISA, put together from the
  instruction word. A conditional branch adds the 13-bit \<open>imm_b\<close> to its own address,
  \<open>jal\<close> the 21-bit \<open>imm_j\<close>; \<open>auipc\<close> adds the sign-extended 32-bit
  \<open>imm_u\<close> to its own address and the following \<open>jalr\<close>, load or \<open>addi\<close> adds the
  12-bit \<open>imm_i\<close>.
\<close>

definition imm_b :: "32 word \<Rightarrow> 13 word" where
  "imm_b w = push_bit 12 (ucast (drop_bit 31 w) AND 1)
             OR push_bit 11 (ucast (drop_bit 7 w) AND 1)
             OR push_bit 5 (ucast (drop_bit 25 w) AND 0x3F)
             OR push_bit 1 (ucast (drop_bit 8 w) AND 0xF)"

definition imm_j :: "32 word \<Rightarrow> 21 word" where
  "imm_j w = push_bit 20 (ucast (drop_bit 31 w) AND 1)
             OR push_bit 12 (ucast (drop_bit 12 w) AND 0xFF)
             OR push_bit 11 (ucast (drop_bit 20 w) AND 1)
             OR push_bit 1 (ucast (drop_bit 21 w) AND 0x3FF)"

text \<open>The byte offset a branch's words encode, relative to the instruction that holds
  the offset (the word at index \<open>instr_offset\<close>).\<close>

definition decoded_offset :: "BranchType \<Rightarrow> 32 word list \<Rightarrow> int" where
  "decoded_offset t ws =
     (let i = instr_offset (branch_info t) in
      if offset_size (branch_info t) = kOffset13 then sint (imm_b (ws ! i))
      else if offset_size (branch_info t) = kOffset21 then sint (imm_j (ws ! i))
      else sint (imm_u (ws ! i)) + sint (imm_i (ws ! Suc i)))"

subsection \<open>Labels, the buffer and the assembler state\<close>

text \<open>
  Modelled from the spec: the \<open>Label\<close> base class (utils/label.h) is not among the
  sources. A label is unused, linked to the last branch that refers to it, or bound to
  a byte offset; the state is the sign of the one integer member: zero when unused,
  positive when linked and negative when bound ("Bound label's position is negative"),
  the stored magnitude being the branch id or byte offset plus the size of a pointer,
  8 on a 64-bit host. The member \<open>position_\<close> is \<open>position\<close> here, and
  \<open>prev_branch_id_plus_one_\<close> of \<open>Riscv64Label\<close> is \<open>prev_branch_id_plus_one\<close>.
\<close>

record Riscv64Label =
  position :: int
  prev_branch_id_plus_one :: nat

definition kPointerSize :: int where "kPointerSize = 8"

definition IsBound :: "Riscv64Label \<Rightarrow> bool" where "IsBound l = (position l < 0)"
definition IsLinked :: "Riscv64Label \<Rightarrow> bool" where "IsLinked l = (position l > 0)"

definition Position :: "Riscv64Label \<Rightarrow> int" where
  "Position l = (if IsBound l then - position l - kPointerSize else position l - kPointerSize)"

definition BindTo :: "Riscv64Label \<Rightarrow> int \<Rightarrow> check_error + Riscv64Label" where
  "BindTo l pos =
     (if IsBound l then Inl CheckFailed
      else (let l' = l\<lparr>position := - pos - kPointerSize\<rparr>
            in if \<not> IsBound l' then Inl CheckFailed else Inr l'))"

definition LinkTo :: "Riscv64Label \<Rightarrow> int \<Rightarrow> check_error + Riscv64Label" where
  "LinkTo l pos =
     (if IsBound l then Inl CheckFailed
      else (let l' = l\<lparr>position := pos + kPointerSize\<rparr>
            in if \<not> IsLinked l' then Inl CheckFailed else Inr l'))"

text \<open>A literal owns its label; \<open>GetSize()\<close> is the length of its data.\<close>

record Literal =
  lit_label :: Riscv64Label
  lit_data :: "8 word list"

text \<open>The part of the assembler that branches, labels and literals use. The buffer is
  its bytes; \<open>buffer_.Size()\<close> is their number.\<close>

record Assembler =
  buffer :: "8 word list"
  branches :: "Branch list"
  literals :: "Literal list"
  long_literals :: "Literal list"

definition le_bytes32 :: "32 word \<Rightarrow> 8 word list" where
  "le_bytes32 w = [ucast w, ucast (drop_bit 8 w), ucast (drop_bit 16 w), ucast (drop_bit 24 w)]"

definition Load32 :: "8 word list \<Rightarrow> nat \<Rightarrow> check_error + 32 word" where
  "Load32 buf pos =
     (if \<not> pos + 4 \<le> length buf then Inl DCheckFailed
      else Inr (ucast (buf ! pos) OR push_bit 8 (ucast (buf ! (pos + 1)))
                OR push_bit 16 (ucast (buf ! (pos + 2))) OR push_bit 24 (ucast (buf ! (pos + 3)))))"

text \<open>\<open>Emit\<close> while instructions are appended (\<open>overwriting_\<close> is false).\<close>

definition Emit :: "Assembler \<Rightarrow> 32 word \<Rightarrow> Assembler" where
  "Emit asm v = asm\<lparr>buffer := buffer asm @ le_bytes32 v\<rparr>"

definition buffer_Size :: "Assembler \<Rightarrow> 32 word" where
  "buffer_Size asm = of_nat (length (buffer asm))"

text \<open>\<open>AssemblerBuffer::Move\<close> copies \<open>n\<close> bytes from \<open>oldposition\<close> to
  \<open>newposition\<close> (a \<open>memmove\<close> inside the buffer, both ranges checked against its
  size); \<open>Resize\<close> sets the size, bytes exposed by growing being of no defined value
  (0 here).\<close>

definition buffer_Move :: "8 word list \<Rightarrow> nat \<Rightarrow> nat \<Rightarrow> nat \<Rightarrow> check_error + 8 word list" where
  "buffer_Move buf newposition oldposition n =
     (if \<not> oldposition + n \<le> length buf \<or> \<not> newposition + n \<le> length buf
      then Inl DCheckFailed
      else Inr (take newposition buf @ take n (drop oldposition buf)
                  @ drop (newposition + n) buf))"

definition buffer_Resize :: "8 word list \<Rightarrow> nat \<Rightarrow> 8 word list" where
  "buffer_Resize buf new_size = take new_size buf @ replicate (new_size - length buf) 0"

definition GetBranch :: "Assembler \<Rightarrow> nat \<Rightarrow> check_error + Branch" where
  "GetBranch asm branch_id =
     (if \<not> branch_id < length (branches asm) then Inl CheckFailed
      else Inr (branches asm ! branch_id))"

definition GetLabelLocation :: "Assembler \<Rightarrow> Riscv64Label \<Rightarrow> check_error + 32 word" where
  "GetLabelLocation asm l =
     (if \<not> IsBound l then Inl CheckFailed
      else
        (let tgt = (word_of_int (Position l) :: 32 word) in
         if prev_branch_id_plus_one l \<noteq> 0 then
           (case GetBranch asm (prev_branch_id_plus_one l - 1) of
              Inl e \<Rightarrow> Inl e
            | Inr b \<Rightarrow> Inr (tgt + GetEndLocation b))
         else Inr tgt))"

text \<open>
  The loop of \<open>Bind\<close> that walks the list of branches linked to the label, threaded
  through the placeholders in the buffer. Each round depends on the label's position
  alone, so a walk of more rounds than there are branches repeats a position and
  never ends: running out of the count is the outcome \<open>Diverges\<close> here.
\<close>

fun bind_walk ::
  "nat \<Rightarrow> 8 word list \<Rightarrow> 32 word \<Rightarrow> Branch list \<Rightarrow> int \<Rightarrow> check_error + Branch list \<times> int" where
  "bind_walk 0 buf bound_pc bs pos = (if pos > 0 then Inl Diverges else Inr (bs, pos))"
| "bind_walk (Suc n) buf bound_pc bs pos =
     (if pos > 0 then
        (let branch_id = pos - kPointerSize in
         if \<not> (0 \<le> branch_id \<and> nat branch_id < length bs) then Inl CheckFailed
         else
           (let i = nat branch_id;
                bs' = bs[i := Resolve (bs ! i) bound_pc]
            in case Load32 buf (unat (location (bs' ! i))) of
                 Inl e \<Rightarrow> Inl e
               | Inr prev \<Rightarrow> bind_walk n buf bound_pc bs' (sint prev)))
      else Inr (bs, pos))"

definition Bind :: "Assembler \<Rightarrow> Riscv64Label \<Rightarrow> check_error + Assembler \<times> Riscv64Label" where
  "Bind asm l =
     (if IsBound l then Inl CheckFailed
      else
        (let bound_pc = buffer_Size asm in
         case bind_walk (Suc (length (branches asm))) (buffer asm) bound_pc (branches asm)
                (position l) of
           Inl e \<Rightarrow> Inl e
         | Inr (bs, pos) \<Rightarrow>
            (let asm' = asm\<lparr>branches := bs\<rparr>;
                 l1 = l\<lparr>position := pos, prev_branch_id_plus_one := length bs\<rparr>;
                 bound_pc = (if prev_branch_id_plus_one l1 \<noteq> 0
                             then bound_pc - GetEndLocation (bs ! (prev_branch_id_plus_one l1 - 1))
                             else bound_pc)
             in case BindTo l1 (sint bound_pc) of
                  Inl e \<Rightarrow> Inl e
                | Inr l2 \<Rightarrow> Inr (asm', l2))))"

fun emit_nops :: "nat \<Rightarrow> Assembler \<Rightarrow> Assembler" where
  "emit_nops 0 asm = asm"
| "emit_nops (Suc n) asm = emit_nops n (Emit asm Nop)"

text \<open>\<open>FinalizeLabeledBranch\<close> is called right after a branch was appended, so
  \<open>branches_.back()\<close> exists.\<close>

definition FinalizeLabeledBranch ::
  "Assembler \<Rightarrow> Riscv64Label \<Rightarrow> check_error + Assembler \<times> Riscv64Label" where
  "FinalizeLabeledBranch asm l =
     (let len = GetLength (last (branches asm)) in
      if \<not> IsBound l then
        (let asm1 = Emit asm (word_of_int (position l));
             branch_id = length (branches asm) - 1
         in case LinkTo l (int branch_id) of
              Inl e \<Rightarrow> Inl e
            | Inr l' \<Rightarrow> Inr (emit_nops (len - 1) asm1, l'))
      else Inr (emit_nops len asm, l))"

definition Bcond ::
  "Assembler \<Rightarrow> Riscv64Label \<Rightarrow> bool \<Rightarrow> BranchCondition \<Rightarrow> GpuRegister \<Rightarrow> GpuRegister
     \<Rightarrow> check_error + Assembler \<times> Riscv64Label" where
  "Bcond asm l is_bare cond lhs rhs =
     (if IsNop cond lhs rhs then Inr (asm, l)
      else
        (case (if IsBound l then GetLabelLocation asm l else Inr kUnresolved) of
           Inl e \<Rightarrow> Inl e
         | Inr tgt \<Rightarrow>
            (case Branch_cond (buffer_Size asm) tgt cond lhs rhs is_bare of
               Inl e \<Rightarrow> Inl e
             | Inr b \<Rightarrow> FinalizeLabeledBranch (asm\<lparr>branches := branches asm @ [b]\<rparr>) l)))"

subsection \<open>Literals\<close>

text \<open>The loop over one literal pool: bind the literal's label at the current end of
  the buffer, then append the literal's bytes, however many they are. \<open>sz\<close> is the
  size the pool's literals are expected to have; it is compared with the literal's size
  by a \<open>DCHECK_EQ\<close>, a check that exists in debug builds only: \<open>dchecks\<close> tells
  whether it is compiled in.\<close>

fun emit_literal_list ::
  "bool \<Rightarrow> nat \<Rightarrow> Assembler \<Rightarrow> Literal list \<Rightarrow> check_error + Assembler \<times> Literal list" where
  "emit_literal_list dchecks sz asm [] = Inr (asm, [])"
| "emit_literal_list dchecks sz asm (lit # lits) =
     (case Bind asm (lit_label lit) of
        Inl e \<Rightarrow> Inl e
      | Inr (asm1, l') \<Rightarrow>
          if dchecks \<and> length (lit_data lit) \<noteq> sz then Inl DCheckFailed
          else
            (case emit_literal_list dchecks sz
                    (asm1\<lparr>buffer := buffer asm1 @ lit_data lit\<rparr>) lits of
               Inl e \<Rightarrow> Inl e
             | Inr (asm2, lits') \<Rightarrow> Inr (asm2, lit\<lparr>lit_label := l'\<rparr> # lits')))"

definition EmitLiterals :: "bool \<Rightarrow> Assembler \<Rightarrow> check_error + Assembler" where
  "EmitLiterals dchecks asm =
     (case emit_literal_list dchecks 4 asm (literals asm) of
        Inl e \<Rightarrow> Inl e
      | Inr (asm1, lits') \<Rightarrow>
         (let asm1 = asm1\<lparr>literals := lits'\<rparr> in
          if long_literals asm1 \<noteq> [] then
            (case emit_literal_list dchecks 8 (Emit asm1 0) (long_literals asm1) of
               Inl e \<Rightarrow> Inl e
             | Inr (asm2, lits2) \<Rightarrow> Inr (asm2\<lparr>long_literals := lits2\<rparr>))
          else Inr asm1))"

subsection \<open>Branch promotion\<close>

text \<open>One pass of the \<open>for\<close> loop over \<open>branches_\<close>: \<open>k\<close> branches are left to
  visit, the next one has index \<open>i\<close>.\<close>

fun promote_from ::
  "nat \<Rightarrow> nat \<Rightarrow> Branch list \<Rightarrow> bool \<Rightarrow> check_error + Branch list \<times> bool" where
  "promote_from 0 i bs changed = Inr (bs, changed)"
| "promote_from (Suc k) i bs changed =
     (if \<not> IsResolved (bs ! i) then Inl CheckFailed
      else
        (case PromoteIfNeeded (bs ! i) kDefaultMaxShortDistance of
           Inl e \<Rightarrow> Inl e
         | Inr (b', delta) \<Rightarrow>
            (let bs1 = bs[i := b'] in
             if delta \<noteq> 0 then
               promote_from k (Suc i)
                 (map (\<lambda>branch2. Relocate branch2 (location b') delta) bs1) True
             else promote_from k (Suc i) bs1 changed)))"

definition promote_pass :: "Branch list \<Rightarrow> check_error + Branch list \<times> bool" where
  "promote_pass bs = promote_from (length bs) 0 bs False"

definition short_count :: "Branch list \<Rightarrow> nat" where
  "short_count bs = length (filter (\<lambda>b. \<not> IsLong b) bs)"

function promote_loop :: "Branch list \<Rightarrow> check_error + Branch list" where
  "promote_loop bs =
     (case promote_pass bs of
        Inl e \<Rightarrow> Inl e
      | Inr (bs', changed) \<Rightarrow> if changed then promote_loop bs' else Inr bs')"
  by pat_completeness auto
termination
proof (relation "measure short_count")
  show "wf (measure short_count)" by simp
next
  fix bs :: "Branch list" and x2 bs' changed
  assume p: "promote_pass bs = Inr x2" and x: "(bs', changed) = x2" and c: "changed"
  have long_map: "short_count (map (\<lambda>b. Relocate b e d) xs) = short_count xs" for e d xs
    by (induction xs) (simp_all add: short_count_def Relocate_def IsLong_def Let_def)
  have upd_same: "IsLong b' = IsLong (xs ! i) \<Longrightarrow> short_count (xs[i := b']) = short_count xs"
    for b' xs i
  proof (induction xs arbitrary: i)
    case Nil
    then show ?case by simp
  next
    case (Cons a xs)
    then show ?case by (cases i) (simp_all add: short_count_def)
  qed
  have upd_long: "i < length xs \<Longrightarrow> IsLong b' \<Longrightarrow> \<not> IsLong (xs ! i)
                    \<Longrightarrow> Suc (short_count (xs[i := b'])) = short_count xs" for b' xs i
  proof (induction xs arbitrary: i)
    case Nil
    then show ?case by simp
  next
    case (Cons a xs)
    then show ?case by (cases i) (simp_all add: short_count_def)
  qed
  have pm: "promote_and_measure b = Inr (b', d) \<Longrightarrow> IsLong b'" for b b' d
    by (auto simp add: promote_and_measure_def PromoteToLong_def Let_def
        split: sum.splits if_splits)
  have pin: "PromoteIfNeeded b m = Inr (b', d) \<Longrightarrow>
               (d = 0 \<and> b' = b) \<or> (d \<noteq> 0 \<and> IsLong b' \<and> \<not> IsLong b)" for b m b' d
  proof -
    assume h: "PromoteIfNeeded b m = Inr (b', d)"
    have z: "promote_and_measure b = Inr (b', d) \<Longrightarrow> d \<noteq> 0"
      by (auto simp add: promote_and_measure_def Let_def split: sum.splits if_splits)
    from h show ?thesis
      using pm [of b b' d] z
      by (auto simp add: PromoteIfNeeded_def split: if_splits)
  qed
  have main: "promote_from k i xs ch = Inr (ys, ch') \<Longrightarrow> i + k \<le> length xs \<Longrightarrow>
               short_count ys \<le> short_count xs
               \<and> (ch' \<and> \<not> ch \<longrightarrow> short_count ys < short_count xs)" for k i xs ch ys ch'
  proof (induction k arbitrary: i xs ch)
    case 0
    then show ?case by simp
  next
    case (Suc k)
    from Suc.prems(1) obtain b' d where
       pi: "PromoteIfNeeded (xs ! i) kDefaultMaxShortDistance = Inr (b', d)"
      by (auto split: if_splits sum.splits)
    have il: "i < length xs" using Suc.prems(2) by simp
    show ?case
    proof (cases "d = 0")
      case True
      then have same: "b' = xs ! i" using pin [OF pi] by auto
      have r: "promote_from k (Suc i) xs ch = Inr (ys, ch')"
        using Suc.prems(1) pi True same by (simp split: if_splits)
      show ?thesis using Suc.IH [OF r] Suc.prems(2) by simp
    next
      case False
      then have l: "IsLong b'" "\<not> IsLong (xs ! i)" using pin [OF pi] by auto
      let ?xs' = "map (\<lambda>branch2. Relocate branch2 (location b') d) (xs[i := b'])"
      have r: "promote_from k (Suc i) ?xs' True = Inr (ys, ch')"
        using Suc.prems(1) pi False by (simp split: if_splits)
      have "Suc (short_count ?xs') = short_count xs"
        using upd_long [OF il l] by (simp add: long_map)
      moreover have "short_count ys \<le> short_count ?xs'"
        using Suc.IH [OF r] Suc.prems(2) by simp
      ultimately show ?thesis by simp
    qed
  qed
  have "short_count bs' < short_count bs"
    using main [of "length bs" 0 bs False bs' changed] p x c
    by (simp add: promote_pass_def)
  then show "(bs', bs) \<in> measure short_count" by simp
qed

declare promote_loop.simps [simp del]

text \<open>The second block of \<open>PromoteBranches\<close>: the buffer grows by what the branches
  grew, and the code between the placeholders moves to its final place, last chunk
  first.\<close>

fun move_chunks :: "Branch list \<Rightarrow> 32 word \<Rightarrow> 8 word list \<Rightarrow> check_error + 8 word list" where
  "move_chunks [] end_pos buf = Inr buf"
| "move_chunks (b # earlier) end_pos buf =
     (let n = end_pos - GetOldEndLocation b in
      case buffer_Move buf (unat (GetEndLocation b)) (unat (GetOldEndLocation b)) (unat n) of
        Inl e \<Rightarrow> Inl e
      | Inr buf' \<Rightarrow> move_chunks earlier (old_location b) buf')"

definition MoveCode :: "Assembler \<Rightarrow> check_error + Assembler" where
  "MoveCode asm =
     (if branches asm = [] then Inr asm
      else
        (let last_branch = last (branches asm);
             size_delta = GetEndLocation last_branch - GetOldEndLocation last_branch;
             old_size = buffer_Size asm;
             buf = buffer_Resize (buffer asm) (unat (old_size + size_delta))
         in case move_chunks (rev (branches asm)) old_size buf of
              Inl e \<Rightarrow> Inl e
            | Inr buf' \<Rightarrow> Inr (asm\<lparr>buffer := buf'\<rparr>)))"

text \<open>The third block: aligning the 64-bit literals.\<close>

definition AlignLongLiterals :: "Assembler \<Rightarrow> check_error + Assembler" where
  "AlignLongLiterals asm =
     (if long_literals asm = [] then Inr asm
      else
        (case GetLabelLocation asm (lit_label (hd (long_literals asm))) of
           Inl e \<Rightarrow> Inl e
         | Inr first_literal_location \<Rightarrow>
            (let lit_size = length (long_literals asm) * 8;
                 buf_size = length (buffer asm)
             in if unat first_literal_location + lit_size \<noteq> buf_size then Inl CheckFailed
                else if unat first_literal_location mod 8 = 0 then Inr asm
                else if unat first_literal_location < 4 then Inl DCheckFailed
                else
                  (case buffer_Move (buffer asm) (unat first_literal_location - 4)
                          (unat first_literal_location) lit_size of
                     Inl e \<Rightarrow> Inl e
                   | Inr buf \<Rightarrow>
                       Inr (asm\<lparr>buffer := buffer_Resize buf (buf_size - 4),
                                branches :=
                                  map (\<lambda>branch. if target branch \<ge> first_literal_location
                                                then Resolve branch (target branch - 4)
                                                else branch) (branches asm),
                                long_literals :=
                                  map (\<lambda>lit. lit\<lparr>lit_label :=
                                                (lit_label lit)\<lparr>position :=
                                                   position (lit_label lit) + 4\<rparr>\<rparr>)
                                      (long_literals asm)\<rparr>)))))"

definition PromoteBranches :: "Assembler \<Rightarrow> check_error + Assembler" where
  "PromoteBranches asm =
     (case promote_loop (branches asm) of
        Inl e \<Rightarrow> Inl e
      | Inr bs \<Rightarrow>
         (case MoveCode (asm\<lparr>branches := bs\<rparr>) of
            Inl e \<Rightarrow> Inl e
          | Inr asm1 \<Rightarrow> AlignLongLiterals asm1))"

subsection \<open>Truncation and NaN-aware minimum and maximum\<close>











































section \<open>Properties\<close>

lemma and_single_bit_word32:
  "((w :: 32 word) AND push_bit n 1 \<noteq> 0) = bit w n"
  by (simp add: bit_iff_and_push_bit_not_eq_0)

text \<open>
  C7. For every feature bitmap, \<open>GetFeatureString\<close> is \<open>rv64imaf\<close> followed by
  \<open>d\<close> exactly when bit 4 (double precision) is set, then \<open>c\<close> exactly when bit 5
  (compressed) is set, then \<open>v\<close> exactly when bit 6 (vector) is set, in that order.
  The default set I, M, A, F, D, C renders \<open>rv64imafdc\<close>, and the part after the fixed
  prefix contains the letter \<open>v\<close> exactly when the vector bit is set.
\<close>

theorem GetFeatureString_render:
  "GetFeatureString (FromBitmap bits) =
      ''rv64imaf'' @ (if bit bits 4 then ''d'' else '''')
                   @ (if bit bits 5 then ''c'' else '''')
                   @ (if bit bits 6 then ''v'' else '''')
   \<and> GetFeatureString FromCppDefines = ''rv64imafdc''
   \<and> (CHR ''v'' \<in> set (drop 8 (GetFeatureString (FromBitmap bits)))) = bit bits 6"
proof -
  have d: "(bits AND kDBitfield \<noteq> 0) = bit bits 4"
    unfolding kDBitfield_def by (rule and_single_bit_word32)
  have c: "(bits AND kCBitfield \<noteq> 0) = bit bits 5"
    unfolding kCBitfield_def by (rule and_single_bit_word32)
  have v: "(bits AND kVBitfield \<noteq> 0) = bit bits 6"
    unfolding kVBitfield_def by (rule and_single_bit_word32)
  have 1: "GetFeatureString (FromBitmap bits) =
      ''rv64imaf'' @ (if bit bits 4 then ''d'' else '''')
                   @ (if bit bits 5 then ''c'' else '''')
                   @ (if bit bits 6 then ''v'' else '''')"
    using d c v by (simp add: GetFeatureString_def FromBitmap_def Let_def)
  have 2: "GetFeatureString FromCppDefines = ''rv64imafdc''"
    by (simp add: GetFeatureString_def FromCppDefines_def kIBitfield_def kMBitfield_def
        kABitfield_def kFBitfield_def kDBitfield_def kCBitfield_def kVBitfield_def)
  have 3: "(CHR ''v'' \<in> set (drop 8 (GetFeatureString (FromBitmap bits)))) = bit bits 6"
    unfolding 1 by simp
  from 1 2 3 show ?thesis by blast
qed

theorem GetFeatureString_render_witness:
  "GetFeatureString (FromBitmap 0x2F) = ''rv64imafc''
   \<and> GetFeatureString (FromBitmap 0x7F) = ''rv64imafdcv''"
  using GetFeatureString_render [of "0x2F"] GetFeatureString_render [of "0x7F"]
  by (simp add: bit_numeral_word_iff)

lemma u32_sub_le: "b \<le> a \<Longrightarrow> a < 2 ^ 32 \<Longrightarrow> u32_sub a b = a - b"
proof -
  assume h: "b \<le> a" "a < 2 ^ 32"
  define M :: nat where "M = 2 ^ 32"
  have b: "b < M" and a: "a < M" using h by (simp_all add: M_def)
  have "a + M - b = (a - b) + M" using h by simp
  then have "(a + M - b) mod M = (a - b) mod M" by (simp only: mod_add_self2)
  also have "\<dots> = a - b" using a by (intro mod_less) arith
  finally have "(a mod M + M - b mod M) mod M = a - b" using a b by simp
  then show ?thesis unfolding u32_sub_def M_def .
qed

lemma int_location:
  "f \<le> a \<Longrightarrow> u32_sub a f = a - f \<Longrightarrow>
   CurrentParamLocation \<lparr>itr_args = a, itr_float_and_doubles = f, cur_is_fp = False\<rparr> =
     (if (a - f) + (f - 8) < 8
      then Inr (InRegister (FromGpuRegister (kGpuArgumentRegisters ! ((a - f) + (f - 8)))))
      else Inr OnStack)"
  by (auto simp add: CurrentParamLocation_def IsCurrentParamOnStack_def
          IsCurrentParamInRegister_def CurrentParamRegister_def Let_def
          kMaxFloatOrDoubleRegisterArguments_def kMaxIntLikeRegisterArguments_def)

lemma fp_location:
  "f \<le> a \<Longrightarrow> u32_sub a f = a - f \<Longrightarrow>
   CurrentParamLocation \<lparr>itr_args = a, itr_float_and_doubles = f, cur_is_fp = True\<rparr> =
     (if f < 8 then Inr (InRegister (FromFpuRegister (kFpuArgumentRegisters ! f)))
      else if (a - f) + (f - 8) < 8
      then Inr (InRegister (FromGpuRegister (kGpuArgumentRegisters ! ((a - f) + (f - 8)))))
      else Inr OnStack)"
  by (auto simp add: CurrentParamLocation_def IsCurrentParamOnStack_def
          IsCurrentParamInRegister_def CurrentParamRegister_def Let_def
          kMaxFloatOrDoubleRegisterArguments_def kMaxIntLikeRegisterArguments_def)

lemma jni_locations_gen:
  assumes M: "M = 2 ^ 32"
  shows "f \<le> a \<Longrightarrow> a + length ps < M \<Longrightarrow> nf = min 8 f \<Longrightarrow>
   ng = min 8 ((a - f) + (f - 8)) \<Longrightarrow>
   jni_locations a f ps = spec_allocate nf ng ps"
proof (induction ps arbitrary: a f nf ng)
  case Nil
  then show ?case by simp
next
  case (Cons p ps)
  have fa: "f \<le> a" by (rule Cons.prems(1))
  have aM: "a < M" using Cons.prems(2) by simp
  have a: "u32_sub a f = a - f" using fa aM unfolding M by (rule u32_sub_le)
  have len: "Suc a + length ps < M" using Cons.prems(2) by simp
  note nf = Cons.prems(3) and ng = Cons.prems(4)
  show ?case
  proof (cases p)
    case IntLike
    have fa': "f \<le> Suc a" using fa by simp
    show ?thesis
    proof (cases "(a - f) + (f - 8) < 8")
      case True
      have g: "ng = (a - f) + (f - 8)" "ng < 8" using True ng by simp_all
      have "Suc ng = min 8 ((Suc a - f) + (f - 8))" using g fa True by simp
      then have step: "jni_locations (Suc a) f ps = spec_allocate nf (Suc ng) ps"
        using fa' len nf by (intro Cons.IH)
      show ?thesis
        unfolding IntLike jni_locations.simps spec_allocate.simps
        using step g True int_location [OF fa a] by simp
    next
      case False
      have g: "ng = 8" using False ng by simp
      have "ng = min 8 ((Suc a - f) + (f - 8))" using g fa False by simp
      then have step: "jni_locations (Suc a) f ps = spec_allocate nf ng ps"
        using fa' len nf by (intro Cons.IH)
      show ?thesis
        unfolding IntLike jni_locations.simps spec_allocate.simps
        using step g False int_location [OF fa a] by simp
    qed
  next
    case FloatOrDouble
    have fa': "Suc f \<le> Suc a" using fa by simp
    have d: "Suc a - Suc f = a - f" by simp
    consider (fpr) "f < 8" | (gpr) "\<not> f < 8" "(a - f) + (f - 8) < 8"
      | (stack) "\<not> f < 8" "\<not> (a - f) + (f - 8) < 8" by blast
    then show ?thesis
    proof cases
      case fpr
      have f8: "nf = f" "nf < 8" using fpr nf by simp_all
      have 1: "Suc nf = min 8 (Suc f)" using f8 fpr by simp
      have 2: "ng = min 8 ((Suc a - Suc f) + (Suc f - 8))" using ng fpr by simp
      have step: "jni_locations (Suc a) (Suc f) ps = spec_allocate (Suc nf) ng ps"
        using fa' len 1 2 by (rule Cons.IH)
      show ?thesis
        unfolding FloatOrDouble jni_locations.simps spec_allocate.simps
        using step f8 fpr fp_location [OF fa a] by simp
    next
      case gpr
      have f8: "nf = 8" using gpr nf by simp
      have g: "ng = (a - f) + (f - 8)" "ng < 8" using gpr ng by simp_all
      have 1: "nf = min 8 (Suc f)" using f8 gpr by simp
      have 2: "Suc ng = min 8 ((Suc a - Suc f) + (Suc f - 8))" using g gpr by simp
      have step: "jni_locations (Suc a) (Suc f) ps = spec_allocate nf (Suc ng) ps"
        using fa' len 1 2 by (rule Cons.IH)
      show ?thesis
        unfolding FloatOrDouble jni_locations.simps spec_allocate.simps
        using step f8 g gpr fp_location [OF fa a] by simp
    next
      case stack
      have f8: "nf = 8" using stack nf by simp
      have g: "ng = 8" using stack ng by simp
      have 1: "nf = min 8 (Suc f)" using f8 stack by simp
      have 2: "ng = min 8 ((Suc a - Suc f) + (Suc f - 8))" using g stack by simp
      have step: "jni_locations (Suc a) (Suc f) ps = spec_allocate nf ng ps"
        using fa' len 1 2 by (rule Cons.IH)
      show ?thesis
        unfolding FloatOrDouble jni_locations.simps spec_allocate.simps
        using step f8 g stack fp_location [OF fa a] by simp
    qed
  qed
qed


lemma fp_before_Cons:
  "fp_before (p # ps) (Suc i) = (if p = FloatOrDouble then Suc (fp_before ps i) else fp_before ps i)"
  by (simp add: fp_before_def)

lemma int_before_Cons:
  "int_before (p # ps) (Suc i) = (if p = IntLike then Suc (int_before ps i) else int_before ps i)"
  by (simp add: int_before_def)

lemma before_sum: "i \<le> length ps \<Longrightarrow> int_before ps i + fp_before ps i = i"
proof (induction ps arbitrary: i)
  case Nil
  then show ?case by (simp add: int_before_def fp_before_def)
next
  case (Cons p ps)
  show ?case
  proof (cases i)
    case 0
    then show ?thesis by (simp add: int_before_def fp_before_def)
  next
    case (Suc j)
    then have "int_before ps j + fp_before ps j = j" using Cons by simp
    then show ?thesis unfolding Suc fp_before_Cons int_before_Cons
      by (cases p) simp_all
  qed
qed

lemma jni_locations_nth:
  "i < length ps \<Longrightarrow>
   jni_locations a f ps ! i =
     CurrentParamLocation \<lparr>itr_args = a + i, itr_float_and_doubles = f + fp_before ps i,
                            cur_is_fp = (ps ! i = FloatOrDouble)\<rparr>"
proof (induction ps arbitrary: a f i)
  case Nil
  then show ?case by simp
next
  case (Cons p ps)
  show ?case
  proof (cases i)
    case 0
    then show ?thesis by (simp add: fp_before_def)
  next
    case (Suc j)
    then have j: "j < length ps" using Cons.prems by simp
    show ?thesis unfolding Suc fp_before_Cons
      using Cons.IH [OF j] by simp
  qed
qed

lemma jni_locations_length: "length (jni_locations a f ps) = length ps"
  by (induction ps arbitrary: a f) simp_all

text \<open>
  C3. In the JNI calling convention, for every parameter list visited in argument order,
  the placement computed by \<open>IsCurrentParamInRegister\<close> and
  \<open>CurrentParamRegister\<close> is the sequential budget rule: once eight floating-point
  parameters have gone to floating-point registers, the \<open>(8+k)\<close>-th floating-point
  parameter goes to the \<open>k\<close>-th integer argument register still available after the
  integer-like parameters before it (index: integer-like parameters before it plus
  \<open>k\<close>) while there is one, and an integer-like parameter is on the stack exactly
  when the integer-like parameters before it together with the floating-point
  parameters spilled so far have used all eight integer argument registers.
\<close>

theorem jni_fp_spill_rule:
  assumes len: "length ps < 2 ^ 32"
  shows "jni_locations 0 0 ps = spec_allocate 0 0 ps
    \<and> (\<forall>i<length ps. ps ! i = FloatOrDouble \<and> 8 \<le> fp_before ps i
           \<and> int_before ps i + (fp_before ps i - 8) < 8 \<longrightarrow>
         jni_locations 0 0 ps ! i =
           Inr (InRegister (FromGpuRegister
                  (kGpuArgumentRegisters ! (int_before ps i + (fp_before ps i - 8))))))
    \<and> (\<forall>i<length ps. ps ! i = IntLike \<longrightarrow>
         (jni_locations 0 0 ps ! i = Inr OnStack) =
           (8 \<le> int_before ps i + (fp_before ps i - 8)))"
proof (intro conjI allI impI)
  show "jni_locations 0 0 ps = spec_allocate 0 0 ps"
    using len by (intro jni_locations_gen [where M = "2 ^ 32"]) simp_all
next
  fix i
  assume i: "i < length ps"
  have sum: "int_before ps i + fp_before ps i = i" using i by (intro before_sum) simp
  have le: "fp_before ps i \<le> i" using sum by simp
  have iM: "i < 2 ^ 32" using i len by (rule less_trans)
  have u: "u32_sub i (fp_before ps i) = i - fp_before ps i" using le iM by (rule u32_sub_le)
  have g: "i - fp_before ps i = int_before ps i" using sum by simp
  {
    assume h: "ps ! i = FloatOrDouble \<and> 8 \<le> fp_before ps i
           \<and> int_before ps i + (fp_before ps i - 8) < 8"
    show "jni_locations 0 0 ps ! i =
           Inr (InRegister (FromGpuRegister
                  (kGpuArgumentRegisters ! (int_before ps i + (fp_before ps i - 8)))))"
      using h g fp_location [OF le u] by (auto simp add: jni_locations_nth [OF i])
  }
  {
    assume h: "ps ! i = IntLike"
    show "(jni_locations 0 0 ps ! i = Inr OnStack) =
           (8 \<le> int_before ps i + (fp_before ps i - 8))"
      using h g int_location [OF le u] by (auto simp add: jni_locations_nth [OF i])
  }
qed

theorem jni_fp_spill_rule_witness:
  "length (IntLike # IntLike # replicate 10 FloatOrDouble @ [IntLike]) < 2 ^ 32
   \<and> fp_before (IntLike # IntLike # replicate 10 FloatOrDouble @ [IntLike]) 10 = 8
   \<and> int_before (IntLike # IntLike # replicate 10 FloatOrDouble @ [IntLike]) 10 = 2
   \<and> jni_locations 0 0 (IntLike # IntLike # replicate 10 FloatOrDouble @ [IntLike]) ! 10
      = Inr (InRegister (FromGpuRegister A2))
   \<and> jni_locations 0 0 (IntLike # IntLike # replicate 10 FloatOrDouble @ [IntLike]) ! 12
      = Inr (InRegister (FromGpuRegister A4))
   \<and> jni_locations 0 0 (replicate 16 FloatOrDouble @ [IntLike]) ! 16 = Inr OnStack"
proof -
  let ?ps = "IntLike # IntLike # replicate 10 FloatOrDouble @ [IntLike]"
  let ?qs = "replicate 16 FloatOrDouble @ [IntLike]"
  have l1: "length ?ps < 2 ^ 32" by simp
  have l2: "length ?qs < 2 ^ 32" by simp
  have b1: "fp_before ?ps 10 = 8" "int_before ?ps 10 = 2"
    by (simp_all add: fp_before_def int_before_def numeral_eq_Suc)
  have e1: "spec_allocate 0 0 ?ps ! 10 = Inr (InRegister (FromGpuRegister A2))"
    by (simp add: kGpuArgumentRegisters_def kFpuArgumentRegisters_def numeral_eq_Suc)
  have e2: "spec_allocate 0 0 ?ps ! 12 = Inr (InRegister (FromGpuRegister A4))"
    by (simp add: kGpuArgumentRegisters_def kFpuArgumentRegisters_def numeral_eq_Suc)
  have e3: "spec_allocate 0 0 ?qs ! 16 = Inr OnStack"
    by (simp add: kGpuArgumentRegisters_def kFpuArgumentRegisters_def numeral_eq_Suc)
  from jni_fp_spill_rule [OF l1] jni_fp_spill_rule [OF l2] e1 e2 e3 b1 l1
  show ?thesis by simp
qed

text \<open>
  C4 (as stated, refuted). A critical native method that needs no stack arguments and
  no result extension could be a tail call, so by the claim no slot for the return
  address is reserved; \<open>OutFrameSize\<close> reserves it all the same.
\<close>

theorem OutFrameSize_tail_call_counterexample:
  "OutFrameSize \<lparr>is_critical_native = True, SpillsMethod = False,
        HasLocalReferenceSegmentState = False, SpillsReturnValue = False,
        SizeOfReturnValue = 0, ReturnValueSaveLocationSize = 8,
        RequiresSmallResultTypeExtension = False, NativeOutArgsSize = 0,
        CriticalNativeStubFrameSize = 16, dchecks_enabled = True\<rparr> = Inr 16
   \<and> OutFrameSize_spec \<lparr>is_critical_native = True, SpillsMethod = False,
        HasLocalReferenceSegmentState = False, SpillsReturnValue = False,
        SizeOfReturnValue = 0, ReturnValueSaveLocationSize = 8,
        RequiresSmallResultTypeExtension = False, NativeOutArgsSize = 0,
        CriticalNativeStubFrameSize = 16, dchecks_enabled = True\<rparr> = 0"
  by (simp add: OutFrameSize_def OutFrameSize_spec_def IsCriticalNative_def RoundUp_def
      kFramePointerSize_def kRiscv64StackAlignment_def)

text \<open>
  C4 (amended). For a critical native method \<open>FrameSize\<close> is 0, and it is a failed
  \<open>CHECK\<close> when the method pointer, the local reference segment state or the
  return value would have to be spilled; \<open>UseTailCall\<close> always answers no, and
  \<open>OutFrameSize\<close> reserves the pointer-width slot for the return address for
  every critical native method: it is the native outgoing-argument size plus 8,
  rounded up to 16 (checked against the stub frame size when \<open>DCHECK\<close>s are on).
\<close>

theorem critical_native_frame_sizes:
  assumes "is_critical_native c"
  shows "FrameSize c =
           (if SpillsMethod c \<or> HasLocalReferenceSegmentState c \<or> SpillsReturnValue c
            then Inl CheckFailed else Inr 0)
       \<and> UseTailCall c = Inr False
       \<and> OutFrameSize c =
           (if dchecks_enabled c
               \<and> RoundUp (NativeOutArgsSize c + 8) 16 \<noteq> CriticalNativeStubFrameSize c
            then Inl DCheckFailed
            else Inr (RoundUp (NativeOutArgsSize c + 8) 16))
       \<and> NativeOutArgsSize c + 8 \<le> RoundUp (NativeOutArgsSize c + 8) 16"
proof -
  have r: "n \<le> RoundUp n 16" for n
  proof -
    have "n + 15 = ((n + 15) div 16) * 16 + (n + 15) mod 16" by simp
    moreover have "(n + 15) mod 16 < 16" by simp
    ultimately show ?thesis unfolding RoundUp_def by linarith
  qed
  show ?thesis
    using assms r [of "NativeOutArgsSize c + 8"]
    by (simp add: FrameSize_def UseTailCall_def OutFrameSize_def IsCriticalNative_def
        kFramePointerSize_def kRiscv64StackAlignment_def Let_def)
qed

theorem critical_native_frame_sizes_witness:
  "FrameSize \<lparr>is_critical_native = True, SpillsMethod = False,
        HasLocalReferenceSegmentState = False, SpillsReturnValue = False,
        SizeOfReturnValue = 0, ReturnValueSaveLocationSize = 8,
        RequiresSmallResultTypeExtension = False, NativeOutArgsSize = 24,
        CriticalNativeStubFrameSize = 32, dchecks_enabled = True\<rparr> = Inr 0
   \<and> OutFrameSize \<lparr>is_critical_native = True, SpillsMethod = False,
        HasLocalReferenceSegmentState = False, SpillsReturnValue = False,
        SizeOfReturnValue = 0, ReturnValueSaveLocationSize = 8,
        RequiresSmallResultTypeExtension = False, NativeOutArgsSize = 24,
        CriticalNativeStubFrameSize = 32, dchecks_enabled = True\<rparr> = Inr 32"
  using critical_native_frame_sizes [of "\<lparr>is_critical_native = True, SpillsMethod = False,
        HasLocalReferenceSegmentState = False, SpillsReturnValue = False,
        SizeOfReturnValue = 0, ReturnValueSaveLocationSize = 8,
        RequiresSmallResultTypeExtension = False, NativeOutArgsSize = 24,
        CriticalNativeStubFrameSize = 32, dchecks_enabled = True\<rparr>"]
  by (simp add: RoundUp_def)

text \<open>
  C8 (as stated, refuted). With \<open>DCHECK\<close>s compiled out, \<open>GetGPR\<close> of a register
  whose slot is null is not stopped by any check: the null slot is dereferenced.
\<close>

theorem GetGPR_unchecked_counterexample:
  "GetGPR False \<lparr>gprs = (\<lambda>r. None), fprs = (\<lambda>r. None)\<rparr> (\<lambda>a. 0) 5 = Inl NullDereference
   \<and> GetFPR False \<lparr>gprs = (\<lambda>r. None), fprs = (\<lambda>r. None)\<rparr> (\<lambda>a. 0) 5 = Inl NullDereference"
  by (simp add: GetGPR_def GetFPR_def kNumberOfGpuRegisters_def kNumberOfFpuRegisters_def)

text \<open>
  C8 (amended). \<open>GetGPR\<close> and \<open>GetFPR\<close> always check the register index
  (\<open>CHECK_LT\<close>). For an in-range register whose slot is null they never return a
  value: with \<open>DCHECK\<close>s enabled the read is a failed check, with them disabled the
  null slot is dereferenced. For an in-range register whose slot holds an address they
  return the value stored there.
\<close>

theorem GetGPR_GetFPR_checked_access:
  "(\<not> reg < kNumberOfGpuRegisters \<longrightarrow> GetGPR d ctx mem reg = Inl CheckFailed)
   \<and> (\<not> reg < kNumberOfFpuRegisters \<longrightarrow> GetFPR d ctx mem reg = Inl CheckFailed)
   \<and> (reg < kNumberOfGpuRegisters \<and> gprs ctx reg = None \<longrightarrow>
        GetGPR d ctx mem reg = (if d then Inl DCheckFailed else Inl NullDereference))
   \<and> (reg < kNumberOfFpuRegisters \<and> fprs ctx reg = None \<longrightarrow>
        GetFPR d ctx mem reg = (if d then Inl DCheckFailed else Inl NullDereference))
   \<and> (reg < kNumberOfGpuRegisters \<and> gprs ctx reg = Some a \<longrightarrow>
        GetGPR d ctx mem reg = Inr (mem a))
   \<and> (reg < kNumberOfFpuRegisters \<and> fprs ctx reg = Some a \<longrightarrow>
        GetFPR d ctx mem reg = Inr (mem a))"
  by (simp add: GetGPR_def GetFPR_def IsAccessibleGPR_def IsAccessibleFPR_def
      kNumberOfGpuRegisters_def kNumberOfFpuRegisters_def)

theorem GetGPR_GetFPR_checked_access_witness:
  "GetGPR True \<lparr>gprs = (\<lambda>r. if r = 8 then Some 64 else None), fprs = (\<lambda>r. None)\<rparr>
      (\<lambda>a. if a = 64 then 7 else 0) 9 = Inl DCheckFailed
   \<and> GetGPR True \<lparr>gprs = (\<lambda>r. if r = 8 then Some 64 else None), fprs = (\<lambda>r. None)\<rparr>
      (\<lambda>a. if a = 64 then 7 else 0) 8 = Inr 7
   \<and> GetFPR True \<lparr>gprs = (\<lambda>r. if r = 8 then Some 64 else None), fprs = (\<lambda>r. None)\<rparr>
      (\<lambda>a. if a = 64 then 7 else 0) 40 = Inl CheckFailed"
  using GetGPR_GetFPR_checked_access [of 9 True
          "\<lparr>gprs = (\<lambda>r. if r = 8 then Some 64 else None), fprs = (\<lambda>r. None)\<rparr>"
          "\<lambda>a. if a = 64 then 7 else 0" 64]
        GetGPR_GetFPR_checked_access [of 8 True
          "\<lparr>gprs = (\<lambda>r. if r = 8 then Some 64 else None), fprs = (\<lambda>r. None)\<rparr>"
          "\<lambda>a. if a = 64 then 7 else 0" 64]
        GetGPR_GetFPR_checked_access [of 40 True
          "\<lparr>gprs = (\<lambda>r. if r = 8 then Some 64 else None), fprs = (\<lambda>r. None)\<rparr>"
          "\<lambda>a. if a = 64 then 7 else 0" 64]
  by (simp add: kNumberOfGpuRegisters_def kNumberOfFpuRegisters_def)

lemma member_lines_writeFileField:
  "member_lines (writeFileField name type) =
     map (\<lambda>i. ''    '' @ type @ decimal i @ '';'') [1..<Suc 65500]"
  by (simp add: member_lines_def writeFileField_def butlast_append)

lemma member_lines_writeFileMethod:
  "member_lines (writeFileMethod name) =
     map (\<lambda>i. ''    public void meth'' @ decimal i @ ''() { }'') [1..<Suc 65500]"
  by (simp add: member_lines_def writeFileMethod_def butlast_append)

lemma digit_char_inj: "a < 10 \<Longrightarrow> b < 10 \<Longrightarrow> digit_char a = digit_char b \<Longrightarrow> a = b"
proof -
  assume a: "a < 10" and b: "b < 10" and e: "digit_char a = digit_char b"
  have "of_char (char_of (48 + a) :: char) = (48 + a) mod 256"
    by (simp only: of_char_of)
  moreover have "of_char (char_of (48 + b) :: char) = (48 + b) mod 256"
    by (simp only: of_char_of)
  ultimately have "(48 + a) mod 256 = (48 + b) mod 256"
    using e by (simp add: digit_char_def)
  then show ?thesis using a b by simp
qed

lemma decimal_last: "last (decimal n) = digit_char (n mod 10)"
  by (subst decimal.simps) simp

lemma decimal_nonempty: "decimal n \<noteq> []"
  by (subst decimal.simps) simp

lemma decimal_butlast: "butlast (decimal n) = (if n < 10 then [] else decimal (n div 10))"
  by (subst decimal.simps) (simp add: butlast_append)

lemma decimal_inj: "decimal n = decimal m \<Longrightarrow> n = m"
proof (induction n arbitrary: m rule: less_induct)
  case (less n)
  have l: "n mod 10 = m mod 10"
    using less.prems decimal_last [of n] decimal_last [of m]
    by (auto intro: digit_char_inj)
  have bl: "butlast (decimal n) = butlast (decimal m)" using less.prems by simp
  show ?case
  proof (cases "n < 10")
    case True
    then have "m < 10" using bl decimal_nonempty [of "m div 10"]
      by (auto simp add: decimal_butlast split: if_splits)
    then show ?thesis using True l by simp
  next
    case False
    then have m: "\<not> m < 10" using bl decimal_nonempty [of "n div 10"]
      by (auto simp add: decimal_butlast split: if_splits)
    then have "decimal (n div 10) = decimal (m div 10)"
      using bl False by (simp add: decimal_butlast)
    moreover have "n div 10 < n" using False by simp
    ultimately have "n div 10 = m div 10" by (rule less.IH [rotated])
    then show ?thesis using l by (metis div_mult_mod_eq)
  qed
qed

lemma numbered_lines_distinct:
  "distinct (map (\<lambda>i. pre @ decimal i @ post) [a..<b])"
proof -
  have "inj_on (\<lambda>i. pre @ decimal i @ post) (set [a..<b])"
    by (rule inj_onI) (auto dest: decimal_inj)
  then show ?thesis by (simp add: distinct_map)
qed

text \<open>
  What the script does. It writes three classes: \<open>FillerStatic\<close> with the static
  fields \<open>staticInt1\<close> to \<open>staticInt65500\<close>, \<open>FillerField\<close> with the instance fields
  \<open>fieldInt1\<close> to \<open>fieldInt65500\<close> and \<open>FillerMethod\<close> with the methods \<open>meth1\<close> to
  \<open>meth65500\<close>, one declaration a line, all different. It runs the build with
  \<open>NEED_DEX=true\<close> and \<open>--api-level 20\<close> before its own arguments, and (when
  \<open>mkdir src\<close> succeeded) its status is 0 exactly when some line of the captured
  standard error contains \<open>Cannot fit requested classes in a single dex\<close>, whatever
  the exit status of the build.
\<close>

lemma run_build_script_outcome:
  "generated_sources =
      [(''src/FillerStatic.java'',
        ''public class FillerStatic {''
          # map (\<lambda>i. ''    static public int staticInt'' @ decimal i @ '';'') [1..<65501]
          @ [''}'']),
       (''src/FillerField.java'',
        ''public class FillerField {''
          # map (\<lambda>i. ''    public int fieldInt'' @ decimal i @ '';'') [1..<65501]
          @ [''}'']),
       (''src/FillerMethod.java'',
        ''public class FillerMethod {''
          # map (\<lambda>i. ''    public void meth'' @ decimal i @ ''() { }'') [1..<65501]
          @ [''}''])]
   \<and> map (length \<circ> member_lines) generated_sources = [65500, 65500, 65500]
   \<and> list_all (distinct \<circ> member_lines) generated_sources
   \<and> (run_build_script True build args = 0) =
       (\<exists>line \<in> set (lines_acc []
            (stderr_text (build generated_sources [(''NEED_DEX'', ''true'')]
                                (''--api-level'' # ''20'' # args)))).
          contains ''Cannot fit requested classes in a single dex'' line)
   \<and> run_build_script False build args \<noteq> 0"
proof -
  have 1: "generated_sources =
      [(''src/FillerStatic.java'',
        ''public class FillerStatic {''
          # map (\<lambda>i. ''    static public int staticInt'' @ decimal i @ '';'') [1..<65501]
          @ [''}'']),
       (''src/FillerField.java'',
        ''public class FillerField {''
          # map (\<lambda>i. ''    public int fieldInt'' @ decimal i @ '';'') [1..<65501]
          @ [''}'']),
       (''src/FillerMethod.java'',
        ''public class FillerMethod {''
          # map (\<lambda>i. ''    public void meth'' @ decimal i @ ''() { }'') [1..<65501]
          @ [''}''])]"
    by (simp add: generated_sources_def writeFileField_def writeFileMethod_def)
  have 2: "map (length \<circ> member_lines) generated_sources = [65500, 65500, 65500]"
    by (simp add: generated_sources_def member_lines_writeFileField member_lines_writeFileMethod)
  have d: "distinct (map (\<lambda>i. ''    '' @ type @ decimal i @ '';'') [1..<Suc 65500])" for type
    using numbered_lines_distinct [of "''    '' @ type" "'';''" 1 "Suc 65500"] by simp
  have m: "distinct (map (\<lambda>i. ''    public void meth'' @ decimal i @ ''() { }'') [1..<Suc 65500])"
    by (rule numbered_lines_distinct)
  have df: "distinct (member_lines (writeFileField name type))" for name type
    unfolding member_lines_writeFileField by (rule d)
  have dm: "distinct (member_lines (writeFileMethod name))" for name
    unfolding member_lines_writeFileMethod by (rule m)
  have 3: "list_all (distinct \<circ> member_lines) generated_sources"
    using df dm unfolding generated_sources_def by simp
  have 4: "(run_build_script True build args = 0) =
       (\<exists>line \<in> set (lines_acc []
            (stderr_text (build generated_sources [(''NEED_DEX'', ''true'')]
                                (''--api-level'' # ''20'' # args)))).
          contains ''Cannot fit requested classes in a single dex'' line)"
    by (simp add: run_build_script_def grep_q_def EXPECTED_ERROR_def list_ex_iff Let_def)
  have 5: "run_build_script False build args \<noteq> 0"
    by (simp add: run_build_script_def)
  from 1 2 3 4 5 show ?thesis by blast
qed

lemma run_build_script_examples:
  "run_build_script True
      (\<lambda>srcs env args. \<lparr>exit_status = 1,
          stderr_text = ''Error: Cannot fit requested classes in a single dex file''\<rparr>) [] = 0
   \<and> run_build_script True
      (\<lambda>srcs env args. \<lparr>exit_status = 1, stderr_text = ''Error: out of memory''\<rparr>) [] \<noteq> 0"
  using run_build_script_outcome [of
      "\<lambda>srcs env args. \<lparr>exit_status = 1,
          stderr_text = ''Error: Cannot fit requested classes in a single dex file''\<rparr>" "[]"]
    run_build_script_outcome [of
      "\<lambda>srcs env args. \<lparr>exit_status = 1, stderr_text = ''Error: out of memory''\<rparr>" "[]"]
  by simp


lemma eleven: "11 \<le> n \<Longrightarrow> n < 12 \<Longrightarrow> n = (11::nat)" by simp

lemma down_add: "(ucast ((a :: 64 word) + b) :: 32 word) = ucast a + ucast b"
proof -
  have 1: "(word_of_int (take_bit 64 k) :: 32 word) = word_of_int k" for k
    by (simp add: word_of_int_eq_iff)
  have "uint (a + b) = take_bit 64 (uint a + uint b)"
    by (simp add: uint_word_ariths take_bit_eq_mod)
  then have "(ucast (a + b) :: 32 word) = word_of_int (take_bit 64 (uint a + uint b))"
    by (simp only: ucast_eq)
  also have "\<dots> = word_of_int (uint a + uint b)" by (rule 1)
  also have "\<dots> = word_of_int (uint a) + word_of_int (uint b)" by (simp only: wi_hom_add)
  also have "\<dots> = ucast a + ucast b" by (simp only: ucast_eq)
  finally show ?thesis .
qed

lemma split_lo12: "(v AND NOT (mask 12)) + (v AND mask 12) = (v :: 32 word)"
proof -
  have z: "(v AND NOT (mask 12)) AND (v AND mask 12) = 0"
    by (rule bit_word_eqI) (auto simp add: bit_simps)
  have "(v AND NOT (mask 12)) + (v AND mask 12) = (v AND NOT (mask 12)) OR (v AND mask 12)"
    using z by (rule disjunctive_add_eq_or)
  also have "\<dots> = v"
    by (rule bit_word_eqI) (auto simp add: bit_simps)
  finally show ?thesis .
qed

lemma scast12_32_neg:
  "bit (v :: 32 word) 11 \<Longrightarrow> (scast (ucast v :: 12 word) :: 32 word) = (v AND mask 12) + NOT (mask 12)"
proof -
  assume b: "bit v 11"
  have z: "(v AND mask 12) AND NOT (mask 12) = 0"
    by (rule bit_word_eqI) (auto simp add: bit_simps)
  have "(v AND mask 12) + NOT (mask 12) = (v AND mask 12) OR NOT (mask 12)"
    using z by (rule disjunctive_add_eq_or)
  moreover have "(scast (ucast v :: 12 word) :: 32 word) = (v AND mask 12) OR NOT (mask 12)"
    using b by (intro bit_word_eqI) (auto simp add: bit_simps min_def dest: eleven)
  ultimately show ?thesis by simp
qed

lemma scast12_32_pos:
  "\<not> bit (v :: 32 word) 11 \<Longrightarrow> (scast (ucast v :: 12 word) :: 32 word) = (v AND mask 12)"
  by (intro bit_word_eqI) (auto simp add: bit_simps min_def dest: eleven)


lemma mask_numerals:
  "(0xFFFFF000 :: 32 word) = NOT (mask 12)"
  "(0x3F :: 32 word) = mask 6"
  "(0xFFF :: 32 word) = mask 12"
  by (simp_all add: mask_eq_exp_minus_1)

lemma EmitI_fields:
  "opcode_of (EmitI imm rs1 (take_bit 3 f3) rd (take_bit 7 opc)) = ucast opc"
  "funct3_of (EmitI imm rs1 (take_bit 3 f3) rd (take_bit 7 opc)) = ucast f3"
  "rd_of (EmitI imm rs1 (take_bit 3 f3) rd (take_bit 7 opc)) = rd"
  "rs1_of (EmitI imm rs1 (take_bit 3 f3) rd (take_bit 7 opc)) = rs1"
  "imm_i (EmitI imm rs1 (take_bit 3 f3) rd (take_bit 7 opc)) = ucast imm"
  unfolding opcode_of_def funct3_of_def rd_of_def rs1_of_def imm_i_def EmitI_def
  by (rule bit_word_eqI; auto simp add: bit_simps dest: bit_imp_le_length)+

lemma EmitI6_fields:
  "opcode_of (EmitI6 f6 imm6 rs1 (take_bit 3 f3) rd (take_bit 7 opc)) = ucast opc"
  "funct3_of (EmitI6 f6 imm6 rs1 (take_bit 3 f3) rd (take_bit 7 opc)) = ucast f3"
  "rd_of (EmitI6 f6 imm6 rs1 (take_bit 3 f3) rd (take_bit 7 opc)) = rd"
  "rs1_of (EmitI6 f6 imm6 rs1 (take_bit 3 f3) rd (take_bit 7 opc)) = rs1"
  "shamt_of (EmitI6 f6 imm6 rs1 (take_bit 3 f3) rd (take_bit 7 opc)) = ucast imm6"
  "funct6_of (EmitI6 f6 imm6 rs1 (take_bit 3 f3) rd (take_bit 7 opc)) = ucast f6"
  unfolding opcode_of_def funct3_of_def rd_of_def rs1_of_def shamt_of_def funct6_of_def EmitI6_def mask_numerals
  by (rule bit_word_eqI; auto simp add: bit_simps dest: bit_imp_le_length)+

lemma EmitU_fields:
  "opcode_of (EmitU imm rd (take_bit 7 opc)) = ucast opc"
  "rd_of (EmitU imm rd (take_bit 7 opc)) = rd"
  "imm_u (EmitU imm rd (take_bit 7 opc)) = push_bit 12 imm"
  unfolding opcode_of_def rd_of_def imm_u_def EmitU_def mask_numerals
  by (rule bit_word_eqI; auto simp add: bit_simps dest: bit_imp_le_length)+

lemma EmitR_fields:
  "opcode_of (EmitR (take_bit 7 f7) rs2 rs1 (take_bit 3 f3) rd (take_bit 7 opc)) = ucast opc"
  "funct3_of (EmitR (take_bit 7 f7) rs2 rs1 (take_bit 3 f3) rd (take_bit 7 opc)) = ucast f3"
  "rd_of (EmitR (take_bit 7 f7) rs2 rs1 (take_bit 3 f3) rd (take_bit 7 opc)) = rd"
  "rs1_of (EmitR (take_bit 7 f7) rs2 rs1 (take_bit 3 f3) rd (take_bit 7 opc)) = rs1"
  "rs2_of (EmitR (take_bit 7 f7) rs2 rs1 (take_bit 3 f3) rd (take_bit 7 opc)) = rs2"
  "funct7_of (EmitR (take_bit 7 f7) rs2 rs1 (take_bit 3 f3) rd (take_bit 7 opc)) = ucast f7"
  unfolding opcode_of_def funct3_of_def rd_of_def rs1_of_def rs2_of_def funct7_of_def EmitR_def
  by (rule bit_word_eqI; auto simp add: bit_simps dest: bit_imp_le_length)+


lemma push_sdrop12: "push_bit 12 (signed_drop_bit 12 v) = (v :: 32 word) AND NOT (mask 12)"
  by (rule bit_word_eqI) (auto simp add: bit_simps)

lemma ucast_scast_32: "(ucast (scast (a :: 32 word) :: 64 word) :: 32 word) = a"
  by (rule bit_word_eqI) (auto simp add: bit_simps)

lemma ucast_scast_12: "(ucast (scast (a :: 12 word) :: 64 word) :: 32 word) = scast a"
  by (rule bit_word_eqI) (auto simp add: bit_simps)

lemma exec_Addi:
  "exec_instr (EmitI imm rs1 0 rd 0x13) rf =
     Some (set_reg rf rd (get_reg rf rs1 + scast (ucast imm :: 12 word)))"
proof -
  have e: "EmitI imm rs1 0 rd 0x13 = EmitI imm rs1 (take_bit 3 0) rd (take_bit 7 0x13)" by simp
  show ?thesis unfolding e exec_instr_def EmitI_fields by simp
qed

lemma exec_Addiw:
  "exec_instr (EmitI imm rs1 0 rd 0x1b) rf =
     Some (set_reg rf rd (sext32 (get_reg rf rs1 + scast (ucast imm :: 12 word))))"
proof -
  have e: "EmitI imm rs1 0 rd 0x1b = EmitI imm rs1 (take_bit 3 0) rd (take_bit 7 0x1b)" by simp
  show ?thesis unfolding e exec_instr_def EmitI_fields by simp
qed

lemma exec_Lui:
  "exec_instr (EmitU imm rd 0x37) rf = Some (set_reg rf rd (scast (push_bit 12 imm :: 32 word)))"
proof -
  have e: "EmitU imm rd 0x37 = EmitU imm rd (take_bit 7 0x37)" by simp
  show ?thesis unfolding e exec_instr_def EmitU_fields by simp
qed

lemma exec_Slli32:
  "exec_instr (EmitI6 0 32 rs1 1 rd 0x13) rf = Some (set_reg rf rd (push_bit 32 (get_reg rf rs1)))"
proof -
  have e: "EmitI6 0 32 rs1 1 rd 0x13 = EmitI6 0 32 rs1 (take_bit 3 1) rd (take_bit 7 0x13)" by simp
  show ?thesis unfolding e exec_instr_def EmitI6_fields by simp
qed

lemma exec_Srli32:
  "exec_instr (EmitI6 0 32 rs1 5 rd 0x13) rf = Some (set_reg rf rd (drop_bit 32 (get_reg rf rs1)))"
proof -
  have e: "EmitI6 0 32 rs1 5 rd 0x13 = EmitI6 0 32 rs1 (take_bit 3 5) rd (take_bit 7 0x13)" by simp
  show ?thesis unfolding e exec_instr_def EmitI6_fields by simp
qed

lemma exec_Or:
  "exec_instr (EmitR 0 rs2 rs1 6 rd 0x33) rf =
     Some (set_reg rf rd (get_reg rf rs1 OR get_reg rf rs2))"
proof -
  have e: "EmitR 0 rs2 rs1 6 rd 0x33 = EmitR (take_bit 7 0) rs2 rs1 (take_bit 3 6) rd (take_bit 7 0x33)" by simp
  show ?thesis unfolding e exec_instr_def EmitR_fields by simp
qed


lemma IsInt12_scast:
  assumes "IsInt 12 (sint (v :: 32 word))"
  shows "(scast (ucast v :: 12 word) :: 64 word) = scast v"
proof -
  have r: "- (2 ^ 11) \<le> sint v" "sint v < 2 ^ 11" using assms by (simp_all add: IsInt_def)
  have "sint (ucast v :: 12 word) = signed_take_bit 11 (uint v)"
    by (simp add: sint_uint unsigned_ucast_eq signed_take_bit_take_bit)
  also have "\<dots> = signed_take_bit 11 (sint v)"
    by (simp add: sint_uint signed_take_bit_signed_take_bit)
  also have "\<dots> = sint v" using r by (metis signed_take_bit_int_eq_self_iff)
  finally have "sint (ucast v :: 12 word) = sint v" .
  then show ?thesis by (metis of_int_sint)
qed

lemma core32:
  "push_bit 12 (signed_drop_bit 12 v + (if bit v 11 then 1 else 0)) + scast (ucast v :: 12 word)
     = (v :: 32 word)"
proof (cases "bit v 11")
  case True
  define A where "A = v AND NOT (mask 12)"
  define L where "L = v AND mask 12"
  define P :: "32 word" where "P = push_bit 12 1"
  define N :: "32 word" where "N = NOT (mask 12)"
  have 1: "push_bit 12 (signed_drop_bit 12 v + 1) = A + P"
    by (simp add: push_bit_add push_sdrop12 A_def P_def)
  have 2: "P + N = 0"
    by (simp add: mask_eq_exp_minus_1 P_def N_def)
  have 3: "(scast (ucast v :: 12 word) :: 32 word) = L + N"
    using scast12_32_neg [OF True] by (simp add: L_def N_def)
  have 4: "A + L = v" using split_lo12 [of v] by (simp add: A_def L_def)
  have "(A + P) + (L + N) = (A + L) + (P + N)" by (simp add: algebra_simps)
  then have "(A + P) + (L + N) = v" using 2 4 by simp
  then show ?thesis using True 1 3 by simp
next
  case False
  then show ?thesis using split_lo12 [of v] scast12_32_pos [OF False]
    by (simp add: push_sdrop12)
qed

lemma lo12_cast: "(ucast (ucast ((v :: 32 word) AND 0xFFF) :: 16 word) :: 12 word) = ucast v"
  unfolding mask_numerals by (rule bit_word_eqI) (auto simp add: bit_simps)

lemma lo12_cast16: "(ucast (ucast (v :: 32 word) :: 16 word) :: 12 word) = ucast v"
  by (rule bit_word_eqI) (auto simp add: bit_simps)

lemma bit_0x800: "bit (0x800 :: 32 word) n = (n = 11)"
proof -
  have e: "(0x800 :: 32 word) = 2 ^ 11" by simp
  show ?thesis unfolding e bit_exp_iff by auto
qed

lemma bit_0x800_int: "bit (0x800 :: int) n = (n = 11)"
proof -
  have e: "(0x800 :: int) = 2 ^ 11" by simp
  show ?thesis unfolding e bit_exp_iff by auto
qed

lemma bit11_test: "(((v :: 32 word) AND 0xFFF) AND 0x800 \<noteq> 0) = bit v 11"
proof -
  have "((v AND 0xFFF) AND 0x800) = v AND push_bit 11 1"
    unfolding mask_numerals by (rule bit_word_eqI) (auto simp add: bit_simps bit_0x800 bit_0x800_int)
  then show ?thesis by (simp add: bit_iff_and_push_bit_not_eq_0)
qed

lemma exec_LoadConst32:
  assumes rd: "rd \<noteq> 0"
  shows "exec_seq (LoadConst32 rd v) rf = Some (rf(rd := scast v))"
proof (cases "IsInt 12 (sint v)")
  case True
  then show ?thesis
    using rd IsInt12_scast [OF True]
    by (simp add: LoadConst32_def Addi_def exec_Addi set_reg_def get_reg_def ZERO_def lo12_cast16)
next
  case False
  define h where "h = signed_drop_bit 12 v + (if bit v 11 then 1 else 0)"
  have hdef: "(let l = v AND 0xFFF; h = signed_drop_bit 12 v;
                  h = (if l AND 0x800 \<noteq> 0 then h + 1 else h)
               in Lui rd h @ (if l \<noteq> 0 then Addiw rd rd (ucast l) else []))
              = Lui rd h @ (if v AND 0xFFF \<noteq> 0 then Addiw rd rd (ucast (v AND 0xFFF)) else [])"
    by (simp add: Let_def h_def bit11_test)
  have c: "push_bit 12 h + scast (ucast v :: 12 word) = v"
    unfolding h_def by (rule core32)
  show ?thesis
  proof (cases "v AND 0xFFF = 0")
    case True
    have "\<not> bit v 11" using True bit11_test [of v] by simp
    then have "scast (ucast v :: 12 word) = (0 :: 32 word)"
      using scast12_32_pos [of v] True by (simp add: mask_numerals)
    then have "push_bit 12 h = v" using c by simp
    then show ?thesis
      using rd False True unfolding LoadConst32_def hdef
      by (simp add: Lui_def exec_Lui set_reg_def)
  next
    case nz: False
    have "sext32 (scast (push_bit 12 h :: 32 word) + scast (ucast v :: 12 word)) = scast v"
      unfolding sext32_def down_add ucast_scast_32 ucast_scast_12 c ..
    then show ?thesis
      using rd False nz unfolding LoadConst32_def hdef
      by (simp add: Lui_def Addiw_def exec_Lui exec_Addiw set_reg_def get_reg_def lo12_cast)
  qed
qed


lemma IsInt32_scast:
  assumes "IsInt 32 (sint (v :: 64 word))"
  shows "(scast (ucast v :: 32 word) :: 64 word) = v"
proof -
  have r: "- (2 ^ 31) \<le> sint v" "sint v < 2 ^ 31" using assms by (simp_all add: IsInt_def)
  have "sint (ucast v :: 32 word) = signed_take_bit 31 (uint v)"
    by (simp add: sint_uint unsigned_ucast_eq signed_take_bit_take_bit)
  also have "\<dots> = signed_take_bit 31 (sint v)"
    by (simp add: sint_uint signed_take_bit_signed_take_bit)
  also have "\<dots> = sint v" using r by (metis signed_take_bit_int_eq_self_iff)
  finally have e: "sint (ucast v :: 32 word) = sint v" .
  have "(scast (ucast v :: 32 word) :: 64 word) = word_of_int (sint (ucast v :: 32 word))"
    by (simp only: scast_eq)
  also have "\<dots> = word_of_int (sint v)" by (simp only: e)
  also have "\<dots> = v" by simp
  finally show ?thesis .
qed

lemma exec_seq_append:
  "exec_seq (xs @ ys) rf = (case exec_seq xs rf of None \<Rightarrow> None | Some rf' \<Rightarrow> exec_seq ys rf')"
  by (induction xs arbitrary: rf) (simp_all split: option.splits)

lemma join_hi_lo:
  "push_bit 32 (scast (ucast (signed_drop_bit 32 v) :: 32 word) :: 64 word)
     OR drop_bit 32 (push_bit 32 (scast (ucast v :: 32 word) :: 64 word)) = (v :: 64 word)"
proof (rule bit_word_eqI)
  fix n :: nat
  assume "n < LENGTH(64)"
  then have n: "n < 64" by simp
  show "bit (push_bit 32 (scast (ucast (signed_drop_bit 32 v) :: 32 word) :: 64 word)
     OR drop_bit 32 (push_bit 32 (scast (ucast v :: 32 word) :: 64 word))) n = bit v n"
  proof (cases "n < 32")
    case True
    then show ?thesis by (auto simp add: bit_simps)
  next
    case False
    then have "32 + (n - 32) = n" by simp
    then show ?thesis using False n by (auto simp add: bit_simps)
  qed
qed

lemma length_LoadConst32: "1 \<le> length (LoadConst32 rd v) \<and> length (LoadConst32 rd v) \<le> 2"
  by (simp add: LoadConst32_def Addi_def Lui_def Addiw_def Let_def)

text \<open>
  C1 (as stated, refuted). With the scratch register as destination (here x30 for both)
  the emitted sequence does not leave the value in the destination: loading
  \<open>2^32\<close> leaves 0 there.
\<close>

theorem LoadConst64_scratch_counterexample:
  "map_option (\<lambda>rf. rf 30) (exec_seq (LoadConst64 30 30 0x100000000) (\<lambda>r. 0)) = Some 0"
proof -
  have n: "\<not> IsInt 32 (sint (0x100000000 :: 64 word))" by (simp add: IsInt_def)
  have hi: "(ucast (signed_drop_bit 32 (0x100000000 :: 64 word)) :: 32 word) = 1"
    by simp
  have z: "push_bit 32 (push_bit 32 (1 :: 64 word)) = 0"
    by (simp add: push_bit_eq_mult)
  show ?thesis
    using n hi z
    by (simp add: LoadConst64_def Let_def exec_seq_append exec_LoadConst32 Slli_def Srli_def
        Or_def exec_Slli32 exec_Srli32 exec_Or set_reg_def get_reg_def)
qed

text \<open>
  C1 (amended). For every 64-bit value \<open>v\<close> and every destination other than
  \<open>ZERO\<close> and the scratch register \<open>TMP2\<close>, executing the instructions emitted by
  \<open>LoadConst64\<close> leaves exactly \<open>v\<close> in the destination. A value representable as a
  signed 32-bit integer is loaded by the one or two instructions of \<open>LoadConst32\<close>
  and changes no other register; every other value is loaded by one fixed sequence of
  six to eight instructions (both halves by \<open>LoadConst32\<close>, two shifts, a
  zero-extension, an or) that also overwrites \<open>TMP2\<close>. No strategy is selected and
  nothing is recorded.
\<close>

theorem LoadConst64_loads_value:
  assumes "rd \<noteq> ZERO" and "TMP2 \<noteq> ZERO" and "rd \<noteq> TMP2"
  shows "exec_seq (LoadConst64 TMP2 rd v) rf =
           Some (if IsInt 32 (sint v) then rf(rd := v)
                 else rf(TMP2 := ucast (ucast v :: 32 word), rd := v))
       \<and> (IsInt 32 (sint v) \<longrightarrow> length (LoadConst64 TMP2 rd v) \<le> 2)
       \<and> (\<not> IsInt 32 (sint v) \<longrightarrow>
            6 \<le> length (LoadConst64 TMP2 rd v) \<and> length (LoadConst64 TMP2 rd v) \<le> 8)"
proof -
  have rd: "rd \<noteq> 0" and t: "TMP2 \<noteq> 0" using assms by (simp_all add: ZERO_def)
  have ex: "exec_seq (LoadConst64 TMP2 rd v) rf =
           Some (if IsInt 32 (sint v) then rf(rd := v)
                 else rf(TMP2 := ucast (ucast v :: 32 word), rd := v))"
  proof (cases "IsInt 32 (sint v)")
    case True
    then show ?thesis
      using rd IsInt32_scast [OF True]
      by (simp add: LoadConst64_def exec_LoadConst32)
  next
    case False
    have z: "drop_bit 32 (push_bit 32 (scast (ucast v :: 32 word) :: 64 word))
              = ucast (ucast v :: 32 word)"
      by (rule bit_word_eqI) (auto simp add: bit_simps)
    show ?thesis
      using False rd t assms(3) join_hi_lo [of v] z
      by (simp add: LoadConst64_def Let_def exec_seq_append exec_LoadConst32 Slli_def Srli_def
          Or_def exec_Slli32 exec_Srli32 exec_Or set_reg_def get_reg_def fun_upd_twist)
  qed
  have l1: "IsInt 32 (sint v) \<longrightarrow> length (LoadConst64 TMP2 rd v) \<le> 2"
    using length_LoadConst32 [of rd "ucast v"] by (simp add: LoadConst64_def)
  have l2: "\<not> IsInt 32 (sint v) \<longrightarrow>
            6 \<le> length (LoadConst64 TMP2 rd v) \<and> length (LoadConst64 TMP2 rd v) \<le> 8"
    using length_LoadConst32 [of TMP2 "ucast v"]
      length_LoadConst32 [of rd "ucast (signed_drop_bit 32 v)"]
    by (simp add: LoadConst64_def Let_def Slli_def Srli_def Or_def)
  from ex l1 l2 show ?thesis by blast
qed

theorem LoadConst64_loads_value_witness:
  "exec_seq (LoadConst64 30 10 0x123456789ABCDEF0) (\<lambda>r. 0) =
     Some ((\<lambda>r. 0)(30 := 0x9ABCDEF0, 10 := 0x123456789ABCDEF0))
   \<and> exec_seq (LoadConst64 30 10 (- 1)) (\<lambda>r. 0) = Some ((\<lambda>r. 0)(10 := - 1))"
proof -
  have r: "(10 :: GpuRegister) \<noteq> ZERO" "(30 :: GpuRegister) \<noteq> ZERO" "(10 :: GpuRegister) \<noteq> 30"
    by (simp_all add: ZERO_def)
  have a: "\<not> IsInt 32 (sint (0x123456789ABCDEF0 :: 64 word))" by (simp add: IsInt_def)
  have b: "IsInt 32 (sint (- 1 :: 64 word))" by (simp add: IsInt_def)
  have c: "(ucast (ucast (0x123456789ABCDEF0 :: 64 word) :: 32 word) :: 64 word) = 0x9ABCDEF0"
    by simp
  from LoadConst64_loads_value [OF r, of "0x123456789ABCDEF0" "\<lambda>r. 0"]
       LoadConst64_loads_value [OF r, of "- 1" "\<lambda>r. 0"] a b c
  show ?thesis by simp
qed

lemma branches_emit_nops [simp]: "branches (emit_nops n asm) = branches asm"
  by (induction n arbitrary: asm) (simp_all add: Emit_def)

lemma branches_FinalizeLabeledBranch:
  "FinalizeLabeledBranch asm l = Inr (asm', l') \<Longrightarrow> branches asm' = branches asm"
  by (auto simp add: FinalizeLabeledBranch_def Let_def Emit_def split: if_splits sum.splits)

lemma FinalizeLabeledBranch_unbound:
  "\<not> IsBound l \<Longrightarrow> branches asm \<noteq> [] \<Longrightarrow>
   FinalizeLabeledBranch asm l =
     Inr (emit_nops (GetLength (last (branches asm)) - 1) (Emit asm (word_of_int (position l))),
          l\<lparr>position := int (length (branches asm) - 1) + kPointerSize\<rparr>)"
  by (simp add: FinalizeLabeledBranch_def Let_def LinkTo_def IsBound_def IsLinked_def
      kPointerSize_def)

lemma Branch_cond_same_register:
  assumes "cond = kCondGE \<or> cond = kCondLE \<or> cond = kCondEQ \<or> cond = kCondGEU"
    and "Branch_cond loc tgt cond r r is_bare = Inr b"
  shows "condition b = kUncond
         \<and> (btype b = kUncondBranch \<or> btype b = kLongUncondBranch \<or> btype b = kBareUncondBranch)
         \<and> location b = loc \<and> target b = tgt"
  using assms
  by (auto simp add: Branch_cond_def cond_operands_ok_def IsNop_def IsUncond_def
      InitializeType_def InitShortOrLong_def Let_def split: if_splits sum.splits)

lemma Branch_cond_same_register_unresolved:
  assumes "cond = kCondGE \<or> cond = kCondLE \<or> cond = kCondEQ \<or> cond = kCondGEU"
    and "r \<noteq> ZERO"
  shows "Branch_cond loc kUnresolved cond r r is_bare =
           Inr \<lparr>old_location = loc, location = loc, target = kUnresolved, lhs_reg = r,
                rhs_reg = r, condition = kUncond,
                btype = (if is_bare then kBareUncondBranch else kUncondBranch),
                old_btype = (if is_bare then kBareUncondBranch else kUncondBranch)\<rparr>"
  using assms
  by (auto simp add: Branch_cond_def cond_operands_ok_def IsNop_def IsUncond_def
      InitializeType_def InitShortOrLong_def GetOffsetSizeNeeded_def Let_def
      kOffset13_def kOffset21_def)

text \<open>
  C10 (as stated, refuted). A branch on equality of \<open>ZERO\<close> with \<open>ZERO\<close> is not
  turned into an unconditional branch: the constructor's \<open>CHECK_NE(lhs_reg, ZERO)\<close>
  fails.
\<close>

theorem Bcond_zero_register_counterexample:
  "Bcond \<lparr>buffer = [], branches = [], literals = [], long_literals = []\<rparr>
         \<lparr>position = 0, prev_branch_id_plus_one = 0\<rparr> False kCondEQ ZERO ZERO
     = Inl CheckFailed"
  by (simp add: Bcond_def IsNop_def IsBound_def Branch_cond_def cond_operands_ok_def)

text \<open>
  C10 (amended). For a conditional branch requested through \<open>Bcond\<close> with the same
  register as both operands: under LT, GT, NE and LTU nothing is emitted and nothing
  changes; under GE, LE, EQ and GEU, whenever \<open>Bcond\<close> completes, exactly one branch
  was appended and it is unconditional (condition \<open>kUncond\<close>, an unconditional
  type). It completes when the register is not \<open>ZERO\<close> and the label is not yet
  bound; with \<open>ZERO\<close> as the register the constructor's check fails.
\<close>

theorem Bcond_same_register:
  "((cond = kCondLT \<or> cond = kCondGT \<or> cond = kCondNE \<or> cond = kCondLTU) \<longrightarrow>
      Bcond asm l is_bare cond r r = Inr (asm, l))
   \<and> ((cond = kCondGE \<or> cond = kCondLE \<or> cond = kCondEQ \<or> cond = kCondGEU) \<longrightarrow>
        (\<forall>asm' l'. Bcond asm l is_bare cond r r = Inr (asm', l') \<longrightarrow>
           (\<exists>b. branches asm' = branches asm @ [b] \<and> condition b = kUncond
                \<and> (btype b = kUncondBranch \<or> btype b = kLongUncondBranch
                     \<or> btype b = kBareUncondBranch)))
        \<and> (r \<noteq> ZERO \<and> \<not> IsBound l \<longrightarrow>
             (\<exists>asm' l'. Bcond asm l is_bare cond r r = Inr (asm', l')
                \<and> branches asm' = branches asm @
                     [\<lparr>old_location = buffer_Size asm, location = buffer_Size asm,
                       target = kUnresolved, lhs_reg = r, rhs_reg = r, condition = kUncond,
                       btype = (if is_bare then kBareUncondBranch else kUncondBranch),
                       old_btype = (if is_bare then kBareUncondBranch else kUncondBranch)\<rparr>]))
        \<and> (r = ZERO \<longrightarrow> Bcond asm l is_bare cond r r = Inl CheckFailed
                          \<or> (\<exists>e. IsBound l \<and> GetLabelLocation asm l = Inl e)))"
proof (intro conjI impI allI)
  assume "cond = kCondLT \<or> cond = kCondGT \<or> cond = kCondNE \<or> cond = kCondLTU"
  then show "Bcond asm l is_bare cond r r = Inr (asm, l)"
    by (auto simp add: Bcond_def IsNop_def)
next
  fix asm' l'
  assume c: "cond = kCondGE \<or> cond = kCondLE \<or> cond = kCondEQ \<or> cond = kCondGEU"
    and r: "Bcond asm l is_bare cond r r = Inr (asm', l')"
  have n: "\<not> IsNop cond r r" using c by (auto simp add: IsNop_def)
  from r n obtain tgt b where
      b: "Branch_cond (buffer_Size asm) tgt cond r r is_bare = Inr b"
      and f: "FinalizeLabeledBranch (asm\<lparr>branches := branches asm @ [b]\<rparr>) l = Inr (asm', l')"
    by (auto simp add: Bcond_def split: sum.splits)
  have "branches asm' = branches asm @ [b]"
    using branches_FinalizeLabeledBranch [OF f] by simp
  then show "\<exists>b. branches asm' = branches asm @ [b] \<and> condition b = kUncond
                \<and> (btype b = kUncondBranch \<or> btype b = kLongUncondBranch
                     \<or> btype b = kBareUncondBranch)"
    using Branch_cond_same_register [OF c b] by blast
next
  assume c: "cond = kCondGE \<or> cond = kCondLE \<or> cond = kCondEQ \<or> cond = kCondGEU"
    and h: "r \<noteq> ZERO \<and> \<not> IsBound l"
  have n: "\<not> IsNop cond r r" using c by (auto simp add: IsNop_def)
  let ?b = "\<lparr>old_location = buffer_Size asm, location = buffer_Size asm,
                       target = kUnresolved, lhs_reg = r, rhs_reg = r, condition = kUncond,
                       btype = (if is_bare then kBareUncondBranch else kUncondBranch),
                       old_btype = (if is_bare then kBareUncondBranch else kUncondBranch)\<rparr>"
  have b: "Branch_cond (buffer_Size asm) kUnresolved cond r r is_bare = Inr ?b"
    using c h by (intro Branch_cond_same_register_unresolved) simp_all
  have f: "FinalizeLabeledBranch (asm\<lparr>branches := branches asm @ [?b]\<rparr>) l =
     Inr (emit_nops (GetLength ?b - 1)
            (Emit (asm\<lparr>branches := branches asm @ [?b]\<rparr>) (word_of_int (position l))),
          l\<lparr>position := int (length (branches asm @ [?b]) - 1) + kPointerSize\<rparr>)"
    using h FinalizeLabeledBranch_unbound [of l "asm\<lparr>branches := branches asm @ [?b]\<rparr>"]
    by simp
  show "\<exists>asm' l'. Bcond asm l is_bare cond r r = Inr (asm', l')
                \<and> branches asm' = branches asm @ [?b]"
    using n h b f by (simp add: Bcond_def Emit_def)
next
  assume c: "cond = kCondGE \<or> cond = kCondLE \<or> cond = kCondEQ \<or> cond = kCondGEU"
    and z: "r = ZERO"
  have n: "\<not> IsNop cond r r" using c by (auto simp add: IsNop_def)
  have b: "Branch_cond loc tgt cond ZERO ZERO is_bare = Inl CheckFailed" for loc tgt
    using c by (auto simp add: Branch_cond_def cond_operands_ok_def)
  show "Bcond asm l is_bare cond r r = Inl CheckFailed
          \<or> (\<exists>e. IsBound l \<and> GetLabelLocation asm l = Inl e)"
    using n z b by (auto simp add: Bcond_def split: sum.splits)
qed

theorem Bcond_same_register_witness:
  "Bcond \<lparr>buffer = [], branches = [], literals = [], long_literals = []\<rparr>
         \<lparr>position = 0, prev_branch_id_plus_one = 0\<rparr> False kCondLT 10 10
     = Inr (\<lparr>buffer = [], branches = [], literals = [], long_literals = []\<rparr>,
            \<lparr>position = 0, prev_branch_id_plus_one = 0\<rparr>)
   \<and> (\<exists>asm' l'. Bcond \<lparr>buffer = [], branches = [], literals = [], long_literals = []\<rparr>
         \<lparr>position = 0, prev_branch_id_plus_one = 0\<rparr> False kCondGE 10 10 = Inr (asm', l')
       \<and> map condition (branches asm') = [kUncond]
       \<and> map btype (branches asm') = [kUncondBranch])"
proof -
  let ?asm = "\<lparr>buffer = [], branches = [], literals = [], long_literals = []\<rparr>"
  let ?l = "\<lparr>position = 0, prev_branch_id_plus_one = 0\<rparr>"
  have r: "(10 :: GpuRegister) \<noteq> ZERO \<and> \<not> IsBound ?l" by (simp add: ZERO_def IsBound_def)
  from Bcond_same_register [of kCondLT ?asm ?l False 10]
  have 1: "Bcond ?asm ?l False kCondLT 10 10 = Inr (?asm, ?l)" by simp
  from Bcond_same_register [of kCondGE ?asm ?l False 10] r
  obtain asm' l' where 2: "Bcond ?asm ?l False kCondGE 10 10 = Inr (asm', l')"
     and 3: "branches asm' = [\<lparr>old_location = buffer_Size ?asm, location = buffer_Size ?asm,
                       target = kUnresolved, lhs_reg = 10, rhs_reg = 10, condition = kUncond,
                       btype = kUncondBranch, old_btype = kUncondBranch\<rparr>]"
    by auto
  from 1 2 3 show ?thesis by simp
qed

lemma Bind_frame:
  "Bind asm l = Inr (asm', l') \<Longrightarrow>
   buffer asm' = buffer asm \<and> literals asm' = literals asm
   \<and> long_literals asm' = long_literals asm"
  by (auto simp add: Bind_def Let_def split: if_splits sum.splits prod.splits)

lemma emit_literal_list_buffer:
  "emit_literal_list dchecks sz asm lits = Inr (asm', lits') \<Longrightarrow>
   buffer asm' = buffer asm @ concat (map lit_data lits)
   \<and> literals asm' = literals asm \<and> long_literals asm' = long_literals asm
   \<and> (dchecks \<longrightarrow> (\<forall>lit \<in> set lits. length (lit_data lit) = sz))
   \<and> map lit_data lits' = map lit_data lits"
proof (induction lits arbitrary: asm asm' lits')
  case Nil
  then show ?case by simp
next
  case (Cons lit lits)
  from Cons.prems obtain asm1 l1 asm2 lits2 where
      b: "Bind asm (lit_label lit) = Inr (asm1, l1)"
      and sz: "dchecks \<longrightarrow> length (lit_data lit) = sz"
      and r: "emit_literal_list dchecks sz (asm1\<lparr>buffer := buffer asm1 @ lit_data lit\<rparr>) lits
                = Inr (asm2, lits2)"
      and e: "asm' = asm2" "lits' = lit\<lparr>lit_label := l1\<rparr> # lits2"
    by (auto split: sum.splits if_splits prod.splits)
  show ?case
    using Cons.IH [OF r] Bind_frame [OF b] sz e by simp
qed

lemma le_bytes32_0: "le_bytes32 0 = [0, 0, 0, 0]"
  by (simp add: le_bytes32_def)

lemma EmitLiterals_buffer:
  assumes "EmitLiterals dchecks asm = Inr asm'"
  shows "buffer asm' =
           buffer asm @ concat (map lit_data (literals asm))
             @ (if long_literals asm = [] then []
                else [0, 0, 0, 0] @ concat (map lit_data (long_literals asm)))
         \<and> (dchecks \<longrightarrow>
               (\<forall>lit \<in> set (literals asm). length (lit_data lit) = 4)
               \<and> (\<forall>lit \<in> set (long_literals asm). length (lit_data lit) = 8))"
proof -
  from assms obtain asm1 lits1 where
      1: "emit_literal_list dchecks 4 asm (literals asm) = Inr (asm1, lits1)"
    by (auto simp add: EmitLiterals_def split: sum.splits prod.splits)
  note f1 = emit_literal_list_buffer [OF 1]
  show ?thesis
  proof (cases "long_literals asm = []")
    case True
    then have "asm' = asm1\<lparr>literals := lits1\<rparr>"
      using assms 1 f1 by (simp add: EmitLiterals_def Let_def)
    then show ?thesis using True f1 by simp
  next
    case False
    then obtain asm2 lits2 where
        2: "emit_literal_list dchecks 8 (Emit (asm1\<lparr>literals := lits1\<rparr>) 0)
               (long_literals asm)
             = Inr (asm2, lits2)"
        and e: "asm' = asm2\<lparr>long_literals := lits2\<rparr>"
      using assms 1 f1 by (auto simp add: EmitLiterals_def Let_def split: sum.splits prod.splits)
    note f2 = emit_literal_list_buffer [OF 2]
    show ?thesis using False f1 f2 e by (simp add: Emit_def le_bytes32_0)
  qed
qed

lemma AlignLongLiterals_unaligned:
  assumes ne: "long_literals asm \<noteq> []"
    and loc: "GetLabelLocation asm (lit_label (hd (long_literals asm))) = Inr first"
    and endp: "unat first + length (long_literals asm) * 8 = length (buffer asm)"
    and un: "unat first mod 8 \<noteq> 0"
    and four: "4 \<le> unat first"
  shows "AlignLongLiterals asm =
           Inr (asm\<lparr>buffer := take (unat first - 4) (buffer asm) @ drop (unat first) (buffer asm),
                    branches := map (\<lambda>branch. if target branch \<ge> first
                                              then branch\<lparr>target := target branch - 4\<rparr>
                                              else branch) (branches asm),
                    long_literals :=
                      map (\<lambda>lit. lit\<lparr>lit_label :=
                                    (lit_label lit)\<lparr>position := position (lit_label lit) + 4\<rparr>\<rparr>)
                          (long_literals asm)\<rparr>)"
proof -
  let ?buf = "buffer asm"
  let ?n = "length (long_literals asm) * 8"
  have mv: "buffer_Move ?buf (unat first - 4) (unat first) ?n =
              Inr (take (unat first - 4) ?buf @ drop (unat first) ?buf
                     @ drop (unat first - 4 + ?n) ?buf)"
    using endp four by (simp add: buffer_Move_def)
  have len: "length (take (unat first - 4) ?buf @ drop (unat first) ?buf) = length ?buf - 4"
    using endp four by simp
  have gen: "buffer_Resize (A @ B) (length A) = A" for A B :: "8 word list"
    by (simp add: buffer_Resize_def)
  have rs: "buffer_Resize (take (unat first - 4) ?buf @ drop (unat first) ?buf
                     @ drop (unat first - 4 + ?n) ?buf) (length ?buf - 4)
            = take (unat first - 4) ?buf @ drop (unat first) ?buf"
    using gen [of "take (unat first - 4) ?buf @ drop (unat first) ?buf"
                  "drop (unat first - 4 + ?n) ?buf"]
    unfolding len by simp
  show ?thesis
    using ne loc endp un four mv rs
    by (simp add: AlignLongLiterals_def Let_def Resolve_def)
qed

text \<open>
  C6. \<open>EmitLiterals\<close> appends the four-byte literals, then, when there are eight-byte
  literals, one reserved 4-byte word followed by the eight-byte literals; where the
  debug-only size checks are compiled in, a run that returns had literals of 4 and of
  8 bytes. \<open>PromoteBranches\<close> is the promotion loop, the move of the code and the
  alignment of the long-literal pool one after the other, and returns exactly what
  they give. The alignment looks at the start of the pool: if it is 8-byte aligned
  nothing changes; if not, the pool moves down by 4 bytes over the reserved word, the
  buffer shrinks by 4 bytes, every branch whose target is at or beyond the old pool
  start has its target reduced by 4, and the pool's labels follow.
\<close>

theorem long_literal_pool_alignment:
  "(EmitLiterals dchecks asm0 = Inr asm0' \<longrightarrow>
      buffer asm0' =
           buffer asm0 @ concat (map lit_data (literals asm0))
             @ (if long_literals asm0 = [] then []
                else [0, 0, 0, 0] @ concat (map lit_data (long_literals asm0)))
      \<and> (dchecks \<longrightarrow>
            (\<forall>lit \<in> set (literals asm0). length (lit_data lit) = 4)
            \<and> (\<forall>lit \<in> set (long_literals asm0). length (lit_data lit) = 8)))
   \<and> ((PromoteBranches asm1 = Inr asm1') =
        (\<exists>bs asm2. promote_loop (branches asm1) = Inr bs
            \<and> MoveCode (asm1\<lparr>branches := bs\<rparr>) = Inr asm2
            \<and> AlignLongLiterals asm2 = Inr asm1'))
   \<and> (long_literals asm \<noteq> []
        \<and> GetLabelLocation asm (lit_label (hd (long_literals asm))) = Inr first
        \<and> unat first + length (long_literals asm) * 8 = length (buffer asm) \<longrightarrow>
        (unat first mod 8 = 0 \<longrightarrow> AlignLongLiterals asm = Inr asm)
        \<and> (unat first mod 8 \<noteq> 0 \<and> 4 \<le> unat first \<longrightarrow>
             (\<exists>asm'. AlignLongLiterals asm = Inr asm'
                \<and> buffer asm' = take (unat first - 4) (buffer asm) @ drop (unat first) (buffer asm)
                \<and> length (buffer asm') = length (buffer asm) - 4
                \<and> drop (unat first - 4) (buffer asm') = drop (unat first) (buffer asm)
                \<and> branches asm' =
                     map (\<lambda>branch. if target branch \<ge> first
                                    then branch\<lparr>target := target branch - 4\<rparr>
                                    else branch) (branches asm)
                \<and> map (position \<circ> lit_label) (long_literals asm') =
                     map (\<lambda>lit. position (lit_label lit) + 4) (long_literals asm))))"
proof -
  have A: "EmitLiterals dchecks asm0 = Inr asm0' \<longrightarrow>
      buffer asm0' =
           buffer asm0 @ concat (map lit_data (literals asm0))
             @ (if long_literals asm0 = [] then []
                else [0, 0, 0, 0] @ concat (map lit_data (long_literals asm0)))
      \<and> (dchecks \<longrightarrow>
            (\<forall>lit \<in> set (literals asm0). length (lit_data lit) = 4)
            \<and> (\<forall>lit \<in> set (long_literals asm0). length (lit_data lit) = 8))"
    using EmitLiterals_buffer [of dchecks asm0 asm0'] by blast
  have B: "(PromoteBranches asm1 = Inr asm1') =
        (\<exists>bs asm2. promote_loop (branches asm1) = Inr bs
            \<and> MoveCode (asm1\<lparr>branches := bs\<rparr>) = Inr asm2
            \<and> AlignLongLiterals asm2 = Inr asm1')"
  proof
    assume "PromoteBranches asm1 = Inr asm1'"
    then show "\<exists>bs asm2. promote_loop (branches asm1) = Inr bs
            \<and> MoveCode (asm1\<lparr>branches := bs\<rparr>) = Inr asm2
            \<and> AlignLongLiterals asm2 = Inr asm1'"
      by (auto simp add: PromoteBranches_def split: sum.splits)
  next
    assume "\<exists>bs asm2. promote_loop (branches asm1) = Inr bs
            \<and> MoveCode (asm1\<lparr>branches := bs\<rparr>) = Inr asm2
            \<and> AlignLongLiterals asm2 = Inr asm1'"
    then obtain bs asm2 where "promote_loop (branches asm1) = Inr bs"
      "MoveCode (asm1\<lparr>branches := bs\<rparr>) = Inr asm2" "AlignLongLiterals asm2 = Inr asm1'"
      by blast
    then show "PromoteBranches asm1 = Inr asm1'" by (simp add: PromoteBranches_def)
  qed
  have C: "long_literals asm \<noteq> []
        \<and> GetLabelLocation asm (lit_label (hd (long_literals asm))) = Inr first
        \<and> unat first + length (long_literals asm) * 8 = length (buffer asm) \<longrightarrow>
        (unat first mod 8 = 0 \<longrightarrow> AlignLongLiterals asm = Inr asm)
        \<and> (unat first mod 8 \<noteq> 0 \<and> 4 \<le> unat first \<longrightarrow>
             (\<exists>asm'. AlignLongLiterals asm = Inr asm'
                \<and> buffer asm' = take (unat first - 4) (buffer asm) @ drop (unat first) (buffer asm)
                \<and> length (buffer asm') = length (buffer asm) - 4
                \<and> drop (unat first - 4) (buffer asm') = drop (unat first) (buffer asm)
                \<and> branches asm' =
                     map (\<lambda>branch. if target branch \<ge> first
                                    then branch\<lparr>target := target branch - 4\<rparr>
                                    else branch) (branches asm)
                \<and> map (position \<circ> lit_label) (long_literals asm') =
                     map (\<lambda>lit. position (lit_label lit) + 4) (long_literals asm)))"
  proof (intro impI conjI)
    assume h: "long_literals asm \<noteq> []
        \<and> GetLabelLocation asm (lit_label (hd (long_literals asm))) = Inr first
        \<and> unat first + length (long_literals asm) * 8 = length (buffer asm)"
      and a: "unat first mod 8 = 0"
    then show "AlignLongLiterals asm = Inr asm"
      by (simp add: AlignLongLiterals_def Let_def)
  next
    assume h: "long_literals asm \<noteq> []
        \<and> GetLabelLocation asm (lit_label (hd (long_literals asm))) = Inr first
        \<and> unat first + length (long_literals asm) * 8 = length (buffer asm)"
      and u: "unat first mod 8 \<noteq> 0 \<and> 4 \<le> unat first"
    have r: "AlignLongLiterals asm =
           Inr (asm\<lparr>buffer := take (unat first - 4) (buffer asm) @ drop (unat first) (buffer asm),
                    branches := map (\<lambda>branch. if target branch \<ge> first
                                              then branch\<lparr>target := target branch - 4\<rparr>
                                              else branch) (branches asm),
                    long_literals :=
                      map (\<lambda>lit. lit\<lparr>lit_label :=
                                    (lit_label lit)\<lparr>position := position (lit_label lit) + 4\<rparr>\<rparr>)
                          (long_literals asm)\<rparr>)"
      using h u by (intro AlignLongLiterals_unaligned) simp_all
    have le: "unat first - 4 \<le> length (buffer asm)" using h by linarith
    have l: "length (take (unat first - 4) (buffer asm)) = unat first - 4"
      using le by simp
    show "\<exists>asm'. AlignLongLiterals asm = Inr asm'
                \<and> buffer asm' = take (unat first - 4) (buffer asm) @ drop (unat first) (buffer asm)
                \<and> length (buffer asm') = length (buffer asm) - 4
                \<and> drop (unat first - 4) (buffer asm') = drop (unat first) (buffer asm)
                \<and> branches asm' =
                     map (\<lambda>branch. if target branch \<ge> first
                                    then branch\<lparr>target := target branch - 4\<rparr>
                                    else branch) (branches asm)
                \<and> map (position \<circ> lit_label) (long_literals asm') =
                     map (\<lambda>lit. position (lit_label lit) + 4) (long_literals asm)"
      unfolding r using h u l by (auto simp add: comp_def min_def)
  qed
  show ?thesis by (rule conjI [OF A conjI [OF B C]])
qed

theorem long_literal_pool_alignment_witness:
  "EmitLiterals True
        \<lparr>buffer = [0, 0, 0, 0, 0x13, 0, 0, 0],
         branches = [\<lparr>old_location = 0, location = 0, target = kUnresolved, lhs_reg = 10,
                      rhs_reg = 0, condition = kUncond, btype = kLiteralLong,
                      old_btype = kLiteralLong\<rparr>],
         literals = [],
         long_literals = [\<lparr>lit_label = \<lparr>position = 8, prev_branch_id_plus_one = 0\<rparr>,
                           lit_data = [1, 2, 3, 4, 5, 6, 7, 8]\<rparr>]\<rparr>
     = Inr \<lparr>buffer = [0, 0, 0, 0, 0x13, 0, 0, 0, 0, 0, 0, 0, 1, 2, 3, 4, 5, 6, 7, 8],
            branches = [\<lparr>old_location = 0, location = 0, target = 12, lhs_reg = 10,
                         rhs_reg = 0, condition = kUncond, btype = kLiteralLong,
                         old_btype = kLiteralLong\<rparr>],
            literals = [],
            long_literals = [\<lparr>lit_label = \<lparr>position = - 12, prev_branch_id_plus_one = 1\<rparr>,
                              lit_data = [1, 2, 3, 4, 5, 6, 7, 8]\<rparr>]\<rparr>
   \<and> PromoteBranches
        \<lparr>buffer = [0, 0, 0, 0, 0x13, 0, 0, 0, 0, 0, 0, 0, 1, 2, 3, 4, 5, 6, 7, 8],
         branches = [\<lparr>old_location = 0, location = 0, target = 12, lhs_reg = 10,
                      rhs_reg = 0, condition = kUncond, btype = kLiteralLong,
                      old_btype = kLiteralLong\<rparr>],
         literals = [],
         long_literals = [\<lparr>lit_label = \<lparr>position = - 12, prev_branch_id_plus_one = 1\<rparr>,
                           lit_data = [1, 2, 3, 4, 5, 6, 7, 8]\<rparr>]\<rparr>
     = Inr \<lparr>buffer = [0, 0, 0, 0, 0x13, 0, 0, 0, 1, 2, 3, 4, 5, 6, 7, 8],
            branches = [\<lparr>old_location = 0, location = 0, target = 8, lhs_reg = 10,
                         rhs_reg = 0, condition = kUncond, btype = kLiteralLong,
                         old_btype = kLiteralLong\<rparr>],
            literals = [],
            long_literals = [\<lparr>lit_label = \<lparr>position = - 8, prev_branch_id_plus_one = 1\<rparr>,
                              lit_data = [1, 2, 3, 4, 5, 6, 7, 8]\<rparr>]\<rparr>
   \<and> PromoteBranches
        \<lparr>buffer = [0, 0, 0, 0, 0x13, 0, 0, 0, 1, 2, 3, 4, 5, 6, 7, 8],
         branches = [\<lparr>old_location = 0, location = 0, target = 8, lhs_reg = 10,
                      rhs_reg = 0, condition = kUncond, btype = kLiteralLong,
                      old_btype = kLiteralLong\<rparr>],
         literals = [],
         long_literals = [\<lparr>lit_label = \<lparr>position = - 8, prev_branch_id_plus_one = 1\<rparr>,
                           lit_data = [1, 2, 3, 4, 5, 6, 7, 8]\<rparr>]\<rparr>
     = Inr \<lparr>buffer = [0, 0, 0, 0, 0x13, 0, 0, 0, 1, 2, 3, 4, 5, 6, 7, 8],
            branches = [\<lparr>old_location = 0, location = 0, target = 8, lhs_reg = 10,
                         rhs_reg = 0, condition = kUncond, btype = kLiteralLong,
                         old_btype = kLiteralLong\<rparr>],
            literals = [],
            long_literals = [\<lparr>lit_label = \<lparr>position = - 8, prev_branch_id_plus_one = 1\<rparr>,
                              lit_data = [1, 2, 3, 4, 5, 6, 7, 8]\<rparr>]\<rparr>"
proof -
  let ?b = "\<lparr>old_location = 0, location = 0, target = kUnresolved, lhs_reg = 10,
                      rhs_reg = 0, condition = kUncond, btype = kLiteralLong,
                      old_btype = kLiteralLong\<rparr>"
  let ?lit = "\<lambda>p n. \<lparr>lit_label = \<lparr>position = p, prev_branch_id_plus_one = n\<rparr>,
                       lit_data = [1, 2, 3, 4, 5, 6, 7, 8 :: 8 word]\<rparr>"
  let ?e = "\<lparr>buffer = [0, 0, 0, 0, 0x13, 0, 0, 0], branches = [?b], literals = [],
            long_literals = [?lit 8 0]\<rparr>"
  let ?a = "\<lparr>buffer = [0, 0, 0, 0, 0x13, 0, 0, 0, 0, 0, 0, 0, 1, 2, 3, 4, 5, 6, 7, 8],
            branches = [?b\<lparr>target := 12\<rparr>], literals = [],
            long_literals = [?lit (- 12) 1]\<rparr>"
  let ?r = "\<lparr>buffer = [0, 0, 0, 0, 0x13, 0, 0, 0, 1, 2, 3, 4, 5, 6, 7, 8],
            branches = [?b\<lparr>target := 8\<rparr>], literals = [],
            long_literals = [?lit (- 8) 1]\<rparr>"
  have ld: "Load32 [0, 0, 0, 0, 0x13, 0, 0, 0, 0, 0, 0, 0] 0 = Inr 0"
    by (simp add: Load32_def)
  have s12: "sint (12 - 8 :: 32 word) = 4" by simp
  have e: "EmitLiterals True ?e = Inr ?a"
    using ld s12
    by (simp add: EmitLiterals_def Emit_def le_bytes32_0 Bind_def IsBound_def buffer_Size_def
        kPointerSize_def Resolve_def BindTo_def GetEndLocation_def GetSize_def GetLength_def
        Let_def)
  have ga: "long_literals ?a \<noteq> []
        \<and> GetLabelLocation ?a (lit_label (hd (long_literals ?a))) = Inr 12
        \<and> unat (12 :: 32 word) + length (long_literals ?a) * 8 = length (buffer ?a)"
    by (simp add: GetLabelLocation_def IsBound_def Position_def kPointerSize_def GetBranch_def
        GetEndLocation_def GetSize_def GetLength_def)
  have gr: "long_literals ?r \<noteq> []
        \<and> GetLabelLocation ?r (lit_label (hd (long_literals ?r))) = Inr 8
        \<and> unat (8 :: 32 word) + length (long_literals ?r) * 8 = length (buffer ?r)"
    by (simp add: GetLabelLocation_def IsBound_def Position_def kPointerSize_def GetBranch_def
        GetEndLocation_def GetSize_def GetLength_def)
  have u: "unat (12 :: 32 word) mod 8 \<noteq> 0 \<and> 4 \<le> unat (12 :: 32 word)"
    "unat (8 :: 32 word) mod 8 = 0" by simp_all
  have pa: "promote_loop (branches ?a) = Inr (branches ?a)" by code_simp
  have pr: "promote_loop (branches ?r) = Inr (branches ?r)" by code_simp
  have ma: "MoveCode (?a\<lparr>branches := branches ?a\<rparr>) = Inr ?a" by code_simp
  have mr: "MoveCode (?r\<lparr>branches := branches ?r\<rparr>) = Inr ?r" by code_simp
  have al: "AlignLongLiterals ?a = Inr ?r"
    using AlignLongLiterals_unaligned [of ?a 12] ga u by simp
  note t1 = long_literal_pool_alignment [of True ?e ?a ?a ?r ?a 12]
  note t2 = long_literal_pool_alignment [of True ?e ?a ?r ?r ?r 8]
  have p1: "PromoteBranches ?a = Inr ?r" using t1 pa ma al by blast
  have "AlignLongLiterals ?r = Inr ?r" using t2 gr u(2) by blast
  then have p2: "PromoteBranches ?r = Inr ?r" using t2 pr mr by blast
  show ?thesis using e p1 p2 by simp
qed

subsection \<open>Branch offsets after promotion\<close>

lemma ucast_add_32_12: "(ucast ((a :: 32 word) + b) :: 12 word) = ucast a + ucast b"
proof -
  have 1: "(word_of_int (take_bit 32 k) :: 12 word) = word_of_int k" for k
    by (simp add: word_of_int_eq_iff)
  have "uint (a + b) = take_bit 32 (uint a + uint b)"
    by (simp add: uint_word_ariths take_bit_eq_mod)
  then have "(ucast (a + b) :: 12 word) = word_of_int (take_bit 32 (uint a + uint b))"
    by (simp only: ucast_eq)
  also have "\<dots> = word_of_int (uint a + uint b)" by (rule 1)
  also have "\<dots> = word_of_int (uint a) + word_of_int (uint b)" by (simp only: wi_hom_add)
  also have "\<dots> = ucast a + ucast b" by (simp only: ucast_eq)
  finally show ?thesis .
qed

lemma adjust_offset_low: "(ucast (adjust_offset v) :: 12 word) = ucast v"
proof -
  have e: "(0x800 :: 32 word) = push_bit 11 1" by simp
  have z: "(ucast (push_bit 1 (v AND 0x800)) :: 12 word) = 0"
    unfolding e by (rule bit_word_eqI, simp only: bit_simps o_apply, auto)
  show ?thesis unfolding adjust_offset_def ucast_add_32_12 z by simp
qed

lemma adjust_offset_carry:
  "push_bit 1 ((v :: 32 word) AND 0x800) = (if bit v 11 then push_bit 12 1 else 0)"
proof -
  have e: "(0x800 :: 32 word) = push_bit 11 1" by simp
  show ?thesis
  proof (cases "bit v 11")
    case True
    have "push_bit 1 (v AND push_bit 11 1) = (push_bit 12 1 :: 32 word)"
    proof (rule bit_word_eqI)
      fix n :: nat
      assume "n < LENGTH(32)"
      have "n - 1 = 11 \<longleftrightarrow> n = 12" by auto
      then show "bit (push_bit 1 (v AND push_bit 11 1)) n = bit (push_bit 12 1 :: 32 word) n"
        using True by (simp only: bit_simps o_apply) auto
    qed
    then show ?thesis unfolding e using True by simp
  next
    case False
    have "push_bit 1 (v AND push_bit 11 1) = (0 :: 32 word)"
    proof (rule bit_word_eqI)
      fix n :: nat
      assume "n < LENGTH(32)"
      have "11 \<le> n - 1 \<Longrightarrow> n \<le> 12 \<Longrightarrow> n - 1 = 11" by auto
      then show "bit (push_bit 1 (v AND push_bit 11 1)) n = bit (0 :: 32 word) n"
        using False by (simp only: bit_simps o_apply) auto
    qed
    then show ?thesis unfolding e using False by simp
  qed
qed

lemma low12_as_cast: "(w :: 32 word) AND mask 12 = ucast (ucast w :: 12 word)"
  by (rule bit_word_eqI) (auto simp add: bit_simps)

lemma adjust_offset_pair:
  "push_bit 12 (drop_bit 12 (adjust_offset v)) + scast (ucast (adjust_offset v) :: 12 word) = v"
proof -
  define w where "w = adjust_offset v"
  define L where "L = v AND mask 12"
  have wl: "w AND mask 12 = L"
    unfolding low12_as_cast L_def w_def adjust_offset_low ..
  have hi: "push_bit 12 (drop_bit 12 w) = w AND NOT (mask 12)"
    by (rule bit_word_eqI) (auto simp add: bit_simps)
  have "(w AND NOT (mask 12)) + L = w" using split_lo12 [of w] wl by simp
  then have hi2: "push_bit 12 (drop_bit 12 w) = w - L" unfolding hi by (simp add: algebra_simps)
  have lo: "(ucast w :: 12 word) = ucast v" unfolding w_def by (rule adjust_offset_low)
  have pn: "push_bit 12 1 + NOT (mask 12 :: 32 word) = 0"
    by (simp add: mask_eq_exp_minus_1)
  show ?thesis
  proof (cases "bit v 11")
    case True
    have "w = v + push_bit 12 1" unfolding w_def adjust_offset_def adjust_offset_carry using True by simp
    moreover have "(scast (ucast v :: 12 word) :: 32 word) = L + NOT (mask 12)"
      unfolding L_def using True by (rule scast12_32_neg)
    ultimately show ?thesis
      unfolding w_def [symmetric] hi2 lo using pn by (simp add: algebra_simps)
  next
    case False
    have "w = v" unfolding w_def adjust_offset_def adjust_offset_carry using False by simp
    moreover have "(scast (ucast v :: 12 word) :: 32 word) = L"
      unfolding L_def using False by (rule scast12_32_pos)
    ultimately show ?thesis
      unfolding w_def [symmetric] hi2 lo by simp
  qed
qed

lemma cong_small:
  fixes a b M :: int
  assumes "a mod M = b mod M" "- M < a - b" "a - b < M"
  shows "a = b"
proof -
  have "M dvd (a - b)" using assms(1) by (simp add: mod_eq_dvd_iff)
  then obtain k where k: "a - b = M * k" by (auto simp add: dvd_def)
  have "k = 0"
  proof (rule ccontr)
    assume "k \<noteq> 0"
    then have "1 \<le> \<bar>k\<bar>" by simp
    then have "\<bar>M\<bar> * 1 \<le> \<bar>M\<bar> * \<bar>k\<bar>" by (rule mult_left_mono) simp
    then have "\<bar>M\<bar> \<le> \<bar>a - b\<bar>" using k by (simp add: abs_mult)
    then show False using assms(2,3) by linarith
  qed
  then show ?thesis using k by simp
qed

lemma long_pair_int:
  fixes U d :: "32 word" and I :: "12 word"
  assumes s: "U + scast I = d" and al: "U = push_bit 12 h" and r: "sint d < 2 ^ 31 - 2048"
  shows "sint U + sint I = sint d"
proof -
  define M :: int where "M = 2 ^ 32"
  have "(word_of_int (sint U + sint I) :: 32 word) = word_of_int (sint U) + word_of_int (sint I)"
    by (simp only: wi_hom_add)
  also have "\<dots> = U + scast I"
  proof -
    have "(word_of_int (sint I) :: 32 word) = scast I" by (simp only: scast_eq)
    moreover have "(word_of_int (sint U) :: 32 word) = U" by simp
    ultimately show ?thesis by simp
  qed
  also have "\<dots> = word_of_int (sint d)" using s by simp
  finally have "(word_of_int (sint U + sint I) :: 32 word) = word_of_int (sint d)" .
  then have "take_bit 32 (sint U + sint I) = take_bit 32 (sint d)"
    unfolding word_of_int_eq_iff by simp
  then have c: "(sint U + sint I) mod M = sint d mod M"
    by (simp add: take_bit_eq_mod M_def)
  have "take_bit 12 (sint U) = 0"
    unfolding al by (rule bit_eqI) (auto simp add: bit_simps)
  then have "2 ^ 12 dvd sint U" by (simp only: take_bit_eq_0_iff)
  then have dv: "4096 dvd sint U" by simp
  have ub: "sint U < 2 ^ 31" using sint_lt [of U] by simp
  have lb: "- (2 ^ 31) \<le> sint U" using sint_ge [of U] by simp
  from dv obtain k where k: "sint U = 4096 * k" by (auto simp add: dvd_def)
  have "k < 524288" using ub k by simp
  then have ub': "sint U \<le> 2 ^ 31 - 4096" using k by simp
  have ib: "- 2048 \<le> sint I" "sint I < 2048" using sint_ge [of I] sint_lt [of I] by simp_all
  have db: "- (2 ^ 31) \<le> sint d" using sint_ge [of d] by simp
  have "- M < (sint U + sint I) - sint d" using lb ib(1) r by (simp add: M_def)
  moreover have "(sint U + sint I) - sint d < M" using ub' ib(2) db by (simp add: M_def)
  ultimately show ?thesis using c by (rule cong_small [rotated])
qed

lemma mask_numerals_b:
  "(0x1000 :: 32 word) = mask 13 AND NOT (mask 12)" "(0x07E0 :: 32 word) = mask 11 AND NOT (mask 5)"
  "(0x1E :: 32 word) = mask 5 AND NOT (mask 1)" "(0x0800 :: 32 word) = mask 12 AND NOT (mask 11)"
  "(0x3F :: 13 word) = mask 6" "(0xF :: 13 word) = mask 4"
  "(0x100000 :: 32 word) = mask 21 AND NOT (mask 20)" "(0x07FE :: 32 word) = mask 11 AND NOT (mask 1)"
  "(0xFF000 :: 32 word) = mask 20 AND NOT (mask 12)"
  "(0xFF :: 21 word) = mask 8" "(0x3FF :: 21 word) = mask 10"
  "(1 :: 13 word) = mask 1" "(1 :: 21 word) = mask 1"
  by (simp_all add: mask_eq_exp_minus_1)

lemma imm_b_recombine:
  "push_bit 12 (ucast (drop_bit 12 imm) AND mask 1) OR push_bit 11 (ucast (drop_bit 11 imm) AND mask 1)
     OR push_bit 5 (ucast (drop_bit 5 imm) AND mask 6) OR push_bit 1 (ucast (drop_bit 1 imm) AND mask 4)
   = (ucast ((imm :: 16 word) AND NOT (mask 1)) :: 13 word)"
proof (rule bit_word_eqI)
  fix n :: nat
  assume "n < LENGTH(13)"
  then have "n < 13" by simp
  then consider "n = 0" | "1 \<le> n \<and> n \<le> 4" | "5 \<le> n \<and> n \<le> 10" | "n = 11" | "n = 12"
    by linarith
  then show "bit (push_bit 12 (ucast (drop_bit 12 imm) AND mask 1) OR push_bit 11 (ucast (drop_bit 11 imm) AND mask 1)
     OR push_bit 5 (ucast (drop_bit 5 imm) AND mask 6) OR push_bit 1 (ucast (drop_bit 1 imm) AND mask 4) :: 13 word) n
     = bit (ucast ((imm :: 16 word) AND NOT (mask 1)) :: 13 word) n"
    by cases (simp_all only: bit_simps o_apply, auto)
qed

lemma imm_j_recombine:
  "push_bit 20 (ucast (drop_bit 20 imm) AND mask 1) OR push_bit 12 (ucast (drop_bit 12 imm) AND mask 8)
     OR push_bit 11 (ucast (drop_bit 11 imm) AND mask 1) OR push_bit 1 (ucast (drop_bit 1 imm) AND mask 10)
   = (ucast ((imm :: 32 word) AND NOT (mask 1)) :: 21 word)"
proof (rule bit_word_eqI)
  fix n :: nat
  assume "n < LENGTH(21)"
  then have "n < 21" by simp
  then consider "n = 0" | "1 \<le> n \<and> n \<le> 10" | "n = 11" | "12 \<le> n \<and> n \<le> 19" | "n = 20"
    by linarith
  then show "bit (push_bit 20 (ucast (drop_bit 20 imm) AND mask 1) OR push_bit 12 (ucast (drop_bit 12 imm) AND mask 8)
     OR push_bit 11 (ucast (drop_bit 11 imm) AND mask 1) OR push_bit 1 (ucast (drop_bit 1 imm) AND mask 10) :: 21 word) n
     = bit (ucast ((imm :: 32 word) AND NOT (mask 1)) :: 21 word) n"
    by cases (simp_all only: bit_simps o_apply, auto)
qed

lemma imm_b_EmitB:
  assumes "EmitB imm rs2 rs1 (take_bit 3 f3) (take_bit 7 opc) = Inr w"
  shows "imm_b w = ucast (imm AND NOT (mask 1))"
proof -
  have w: "w = push_bit 31 (drop_bit 12 (ucast imm AND (mask 13 AND NOT (mask 12))))
                OR push_bit 25 (drop_bit 5 (ucast imm AND (mask 11 AND NOT (mask 5))))
                OR push_bit 20 (ucast rs2) OR push_bit 15 (ucast rs1) OR push_bit 12 (take_bit 3 f3)
                OR push_bit 8 (drop_bit 1 (ucast imm AND (mask 5 AND NOT (mask 1))))
                OR push_bit 7 (drop_bit 11 (ucast imm AND (mask 12 AND NOT (mask 11))))
                OR (take_bit 7 opc)"
    using assms unfolding EmitB_def mask_numerals_b by (simp split: if_splits)
  have b12: "(ucast (drop_bit 31 w) AND mask 1 :: 13 word) = ucast (drop_bit 12 imm) AND mask 1"
    unfolding w by (rule bit_word_eqI, simp only: bit_simps o_apply, auto dest: bit_imp_le_length)
  have b11: "(ucast (drop_bit 7 w) AND mask 1 :: 13 word) = ucast (drop_bit 11 imm) AND mask 1"
    unfolding w by (rule bit_word_eqI, simp only: bit_simps o_apply, auto dest: bit_imp_le_length)
  have b5: "(ucast (drop_bit 25 w) AND mask 6 :: 13 word) = ucast (drop_bit 5 imm) AND mask 6"
    unfolding w by (rule bit_word_eqI, simp only: bit_simps o_apply, auto dest: bit_imp_le_length)
  have b1: "(ucast (drop_bit 8 w) AND mask 4 :: 13 word) = ucast (drop_bit 1 imm) AND mask 4"
    unfolding w by (rule bit_word_eqI, simp only: bit_simps o_apply, auto dest: bit_imp_le_length)
  show ?thesis unfolding imm_b_def mask_numerals_b b12 b11 b5 b1 by (rule imm_b_recombine)
qed

lemma imm_j_EmitJ:
  assumes "EmitJ imm rd (take_bit 7 opc) = Inr w"
  shows "imm_j w = ucast (imm AND NOT (mask 1))"
proof -
  have w: "w = push_bit 31 (drop_bit 20 (imm AND (mask 21 AND NOT (mask 20))))
                OR push_bit 21 (drop_bit 1 (imm AND (mask 11 AND NOT (mask 1))))
                OR push_bit 20 (drop_bit 11 (imm AND (mask 12 AND NOT (mask 11))))
                OR push_bit 12 (drop_bit 12 (imm AND (mask 20 AND NOT (mask 12))))
                OR push_bit 7 (ucast rd) OR (take_bit 7 opc)"
    using assms unfolding EmitJ_def mask_numerals_b by (simp split: if_splits)
  have j20: "(ucast (drop_bit 31 w) AND mask 1 :: 21 word) = ucast (drop_bit 20 imm) AND mask 1"
    unfolding w by (rule bit_word_eqI, simp only: bit_simps o_apply, auto dest: bit_imp_le_length)
  have j12: "(ucast (drop_bit 12 w) AND mask 8 :: 21 word) = ucast (drop_bit 12 imm) AND mask 8"
    unfolding w by (rule bit_word_eqI, simp only: bit_simps o_apply, auto dest: bit_imp_le_length)
  have j11: "(ucast (drop_bit 20 w) AND mask 1 :: 21 word) = ucast (drop_bit 11 imm) AND mask 1"
    unfolding w by (rule bit_word_eqI, simp only: bit_simps o_apply, auto dest: bit_imp_le_length)
  have j1: "(ucast (drop_bit 21 w) AND mask 10 :: 21 word) = ucast (drop_bit 1 imm) AND mask 10"
    unfolding w by (rule bit_word_eqI, simp only: bit_simps o_apply, auto dest: bit_imp_le_length)
  show ?thesis unfolding imm_j_def mask_numerals_b j20 j12 j11 j1 by (rule imm_j_recombine)
qed

lemma promote_and_measure_delta:
  "promote_and_measure b = Inr (b', d) \<Longrightarrow> d \<noteq> 0"
  by (auto simp add: promote_and_measure_def Let_def split: sum.splits if_splits)

lemma PromoteIfNeeded_default:
  assumes "PromoteIfNeeded b kDefaultMaxShortDistance = Inr (b', d)"
  shows "(d \<noteq> 0) = (\<not> IsLong b \<and> IsResolved b
                        \<and> GetOffsetSize b < GetOffsetSizeNeeded (location b) (target b))"
    and "d = 0 \<Longrightarrow> b' = b"
  using assms promote_and_measure_delta [of b b' d]
  by (auto simp add: PromoteIfNeeded_def split: if_splits)

lemma promote_from_changed:
  "promote_from k i bs True = Inr (bs', ch) \<Longrightarrow> ch"
proof (induction k arbitrary: i bs)
  case 0
  then show ?case by simp
next
  case (Suc k)
  then show ?case
    by (auto simp add: Let_def split: if_splits sum.splits prod.splits)
qed

lemma promote_from_fixed:
  "promote_from k i bs False = Inr (bs', False) \<Longrightarrow>
     bs' = bs \<and> (\<forall>j. i \<le> j \<and> j < i + k \<longrightarrow> (IsResolved (bs ! j) \<and> (IsLong (bs ! j) \<or> GetOffsetSizeNeeded (location (bs ! j)) (target (bs ! j)) \<le> GetOffsetSize (bs ! j))))"
proof (induction k arbitrary: i)
  case 0
  then show ?case by auto
next
  case (Suc k)
  from Suc.prems obtain b' d where
    r: "IsResolved (bs ! i)" and
    pi: "PromoteIfNeeded (bs ! i) kDefaultMaxShortDistance = Inr (b', d)"
    by (auto split: if_splits sum.splits)
  have d0: "d = 0"
  proof (rule ccontr)
    assume "d \<noteq> 0"
    then have "promote_from k (Suc i)
                 (map (\<lambda>branch2. Relocate branch2 (location b') d) (bs[i := b'])) True = Inr (bs', False)"
      using Suc.prems r pi by simp
    then show False using promote_from_changed by blast
  qed
  then have same: "b' = bs ! i" using PromoteIfNeeded_default(2) [OF pi] by simp
  have rest: "promote_from k (Suc i) bs False = Inr (bs', False)"
    using Suc.prems r pi d0 same by simp
  have here: "(IsResolved (bs ! i) \<and> (IsLong (bs ! i) \<or> GetOffsetSizeNeeded (location (bs ! i)) (target (bs ! i)) \<le> GetOffsetSize (bs ! i)))"
    using PromoteIfNeeded_default(1) [OF pi] d0 r by auto
  from Suc.IH [OF rest] have eq: "bs' = bs"
    and later: "\<forall>j. Suc i \<le> j \<and> j < Suc i + k \<longrightarrow> (IsResolved (bs ! j) \<and> (IsLong (bs ! j) \<or> GetOffsetSizeNeeded (location (bs ! j)) (target (bs ! j)) \<le> GetOffsetSize (bs ! j)))" by simp_all
  have "(IsResolved (bs ! j) \<and> (IsLong (bs ! j) \<or> GetOffsetSizeNeeded (location (bs ! j)) (target (bs ! j)) \<le> GetOffsetSize (bs ! j)))" if "i \<le> j \<and> j < i + Suc k" for j
  proof (cases "j = i")
    case True
    then show ?thesis using here by simp
  next
    case False
    then show ?thesis using later that by simp
  qed
  then show ?case using eq by simp
qed

lemma promote_loop_stable:
  "promote_loop bs = Inr bs' \<Longrightarrow> \<forall>b \<in> set bs'. (IsResolved (b) \<and> (IsLong (b) \<or> GetOffsetSizeNeeded (location (b)) (target (b)) \<le> GetOffsetSize (b)))"
proof (induction bs rule: promote_loop.induct)
  case (1 bs)
  from "1.prems" obtain bs1 ch where p: "promote_pass bs = Inr (bs1, ch)"
    by (subst (asm) promote_loop.simps) (auto split: sum.splits)
  show ?case
  proof (cases ch)
    case True
    then have "promote_loop bs1 = Inr bs'"
      using "1.prems" p by (subst (asm) promote_loop.simps) simp
    then show ?thesis using "1.IH" [OF p refl True] by simp
  next
    case False
    then have e: "bs' = bs1"
      using "1.prems" p by (subst (asm) promote_loop.simps) simp
    have "promote_from (length bs) 0 bs False = Inr (bs1, False)"
      using p False by (simp add: promote_pass_def)
    from promote_from_fixed [OF this]
    have "bs1 = bs" and "\<forall>j. j < length bs \<longrightarrow> (IsResolved (bs ! j) \<and> (IsLong (bs ! j) \<or> GetOffsetSizeNeeded (location (bs ! j)) (target (bs ! j)) \<le> GetOffsetSize (bs ! j)))" by simp_all
    then show ?thesis using e by (auto simp add: in_set_conv_nth)
  qed
qed

lemma sint_distance:
  fixes t l :: "32 word"
  assumes "- (2 ^ 31) \<le> uint t - uint l" "uint t - uint l < 2 ^ 31"
  shows "sint (t - l) = uint t - uint l"
proof -
  have "sint (t - l) = signed_take_bit 31 (uint t - uint l)"
    by (subst word_sub_wi) (simp only: sint_sbintrunc', simp)
  then show ?thesis using assms by (simp only: signed_take_bit_int_eq_self)
qed

lemma even_distance:
  fixes t l :: "32 word"
  shows "even (uint t - uint l) \<Longrightarrow> \<not> bit (t - l) 0"
proof -
  assume e: "even (uint t - uint l)"
  have 1: "odd (t - l) = odd (uint (t - l))"
    using bit_uint_iff [of "t - l" 0] by (simp add: bit_0)
  have 2: "uint (t - l) = (uint t - uint l) mod 2 ^ 32"
    by (simp add: uint_word_ariths)
  have "(2 :: int) dvd 2 ^ 32" by simp
  then have 3: "even ((uint t - uint l) mod 2 ^ 32) = even (uint t - uint l)"
    by (rule dvd_mod_iff)
  show ?thesis using e 1 3 unfolding 2 by (simp add: bit_0)
qed

lemma sint_short13:
  fixes t l :: "32 word"
  assumes "IsInt 13 (uint t - uint l)"
  shows "sint (ucast (t - l) :: 13 word) = uint t - uint l"
proof -
  have d: "is_down (ucast :: 32 word \<Rightarrow> 13 word)" by (simp add: is_down)
  have "(ucast (word_of_int (uint t - uint l) :: 32 word) :: 13 word) = word_of_int (uint t - uint l)"
    using d by (rule ucast_down_wi)
  then have "(ucast (t - l) :: 13 word) = word_of_int (uint t - uint l)"
    by (simp only: word_sub_wi [symmetric])
  then have "sint (ucast (t - l) :: 13 word) = signed_take_bit 12 (uint t - uint l)"
    by (simp only: sint_sbintrunc', simp)
  then show ?thesis using assms by (simp add: IsInt_def signed_take_bit_int_eq_self)
qed

lemma sint_short21:
  fixes t l :: "32 word"
  assumes "IsInt 21 (uint t - uint l)"
  shows "sint (ucast (t - l) :: 21 word) = uint t - uint l"
proof -
  have d: "is_down (ucast :: 32 word \<Rightarrow> 21 word)" by (simp add: is_down)
  have "(ucast (word_of_int (uint t - uint l) :: 32 word) :: 21 word) = word_of_int (uint t - uint l)"
    using d by (rule ucast_down_wi)
  then have "(ucast (t - l) :: 21 word) = word_of_int (uint t - uint l)"
    by (simp only: word_sub_wi [symmetric])
  then have "sint (ucast (t - l) :: 21 word) = signed_take_bit 20 (uint t - uint l)"
    by (simp only: sint_sbintrunc', simp)
  then show ?thesis using assms by (simp add: IsInt_def signed_take_bit_int_eq_self)
qed

lemma field13:
  "\<not> bit (d :: 32 word) 0 \<Longrightarrow>
     (ucast ((ucast (d AND mask 13) :: 16 word) AND NOT (mask 1)) :: 13 word) = ucast d"
  by (rule bit_word_eqI, simp only: bit_simps o_apply, auto simp add: not_less Suc_le_eq intro: gr0I)

lemma field21:
  "\<not> bit (d :: 32 word) 0 \<Longrightarrow>
     (ucast ((d AND mask 21) AND NOT (mask 1)) :: 21 word) = ucast d"
  by (rule bit_word_eqI, simp only: bit_simps o_apply, auto simp add: not_less Suc_le_eq intro: gr0I)

lemma imm_b_EmitB_branch:
  assumes "EmitB imm rs2 rs1 f3 0x63 = Inr w" and "take_bit 3 f3 = f3"
  shows "imm_b w = ucast (imm AND NOT (mask 1))"
proof -
  have "EmitB imm rs2 rs1 (take_bit 3 f3) (take_bit 7 0x63) = Inr w"
    using assms by simp
  then show ?thesis by (rule imm_b_EmitB)
qed

lemma imm_b_EmitBcond:
  assumes "EmitBcond cond rs rt off = Inr w"
  shows "imm_b w = ucast ((ucast off :: 16 word) AND NOT (mask 1))"
proof -
  define P where "P = (imm_b w = ucast ((ucast off :: 16 word) AND NOT (mask 1)))"
  have R: "EmitB (ucast off) rs2 rs1 f3 0x63 = Inr w \<Longrightarrow> take_bit 3 f3 = f3 \<Longrightarrow> P"
    for rs2 rs1 f3
    unfolding P_def by (rule imm_b_EmitB_branch)
  have P
    using assms
    by (cases cond)
       (auto simp add: EmitBcond_def Bltc_def Bgec_def Bltuc_def Bgeuc_def Beqc_def Bnec_def
          compare_branch_def Bltzc_def Bgtzc_def Bgezc_def Blezc_def Beqzc_def Bnezc_def
          split: if_splits intro: R)
  then show ?thesis unfolding P_def .
qed

lemma imm_j_Jal:
  assumes "Jal rd off = Inr w"
  shows "imm_j w = ucast (off AND NOT (mask 1))"
proof -
  have "EmitJ off rd (take_bit 7 0x6F) = Inr w" using assms by (simp add: Jal_def)
  then show ?thesis by (rule imm_j_EmitJ)
qed

lemma imm_u_Auipc: "imm_u (Auipc rd hi) = push_bit 12 hi"
proof -
  have "Auipc rd hi = EmitU hi rd (take_bit 7 0x17)" by (simp add: Auipc_def)
  then show ?thesis by (simp only: EmitU_fields)
qed

lemma imm_i_low:
  "imm_i (Jalr rd rs1 lo) = ucast lo"
  "imm_i (Lw rd rs1 lo) = ucast lo"
  "imm_i (Lwu rd rs1 lo) = ucast lo"
  "imm_i (Ld rd rs1 lo) = ucast lo"
  "imm_i (hd (Addi rd rs1 lo)) = ucast lo"
proof -
  have e: "Jalr rd rs1 lo = EmitI lo rs1 (take_bit 3 0) rd (take_bit 7 0x67)"
    "Lw rd rs1 lo = EmitI lo rs1 (take_bit 3 2) rd (take_bit 7 0x03)"
    "Lwu rd rs1 lo = EmitI lo rs1 (take_bit 3 6) rd (take_bit 7 0x03)"
    "Ld rd rs1 lo = EmitI lo rs1 (take_bit 3 3) rd (take_bit 7 0x03)"
    "hd (Addi rd rs1 lo) = EmitI lo rs1 (take_bit 3 0) rd (take_bit 7 0x13)"
    by (simp_all add: Jalr_def Lw_def Lwu_def Ld_def Addi_def)
  show "imm_i (Jalr rd rs1 lo) = ucast lo" by (simp only: e EmitI_fields)
  show "imm_i (Lw rd rs1 lo) = ucast lo" by (simp only: e EmitI_fields)
  show "imm_i (Lwu rd rs1 lo) = ucast lo" by (simp only: e EmitI_fields)
  show "imm_i (Ld rd rs1 lo) = ucast lo" by (simp only: e EmitI_fields)
  show "imm_i (hd (Addi rd rs1 lo)) = ucast lo" by (simp only: e EmitI_fields)
qed

lemma long_pair_decodes:
  fixes t l :: "32 word"
  assumes lo: "- (2 ^ 31) \<le> uint t - uint l" and hi: "uint t - uint l < 2 ^ 31 - 2048"
  shows "sint (push_bit 12 (High20Bits (adjust_offset (t - l))) :: 32 word)
           + sint (ucast (Low12Bits (adjust_offset (t - l))) :: 12 word)
         = uint t - uint l"
proof -
  have s: "sint (t - l) = uint t - uint l" using lo hi by (intro sint_distance) simp_all
  have c: "(ucast (Low12Bits (adjust_offset (t - l))) :: 12 word) = ucast (adjust_offset (t - l))"
    unfolding Low12Bits_def by (rule lo12_cast)
  have "sint (push_bit 12 (drop_bit 12 (adjust_offset (t - l))) :: 32 word)
           + sint (ucast (adjust_offset (t - l)) :: 12 word) = sint (t - l)"
    by (rule long_pair_int [OF adjust_offset_pair refl]) (use hi s in simp)
  then show ?thesis unfolding High20Bits_def c s .
qed

lemma GetOffset_value:
  assumes "GetOffset b = Inr off"
  shows "off = (target b - GetOffsetLocation b) AND drop_bit (32 - GetOffsetSize b) 0xFFFFFFFF"
  using assms
  by (cases "btype b") (simp_all add: GetOffset_def Let_def split: if_splits)

lemma short_location:
  "\<not> IsLong b \<Longrightarrow> GetOffsetLocation b = location b"
  by (cases "btype b") (simp_all add: GetOffsetLocation_def IsLong_def)

lemma EmitBranch_short13:
  assumes e: "EmitBranch AT b = Inr ws"
    and t: "btype b = kCondBranch \<or> btype b = kBareCondBranch"
    and ev: "even (uint (target b) - uint (location b))"
    and fit: "IsInt 13 (uint (target b) - uint (location b))"
  shows "decoded_offset (btype b) ws = uint (target b) - uint (location b)"
proof -
  from e obtain off where g: "GetOffset b = Inr off"
    by (auto simp add: EmitBranch_def split: sum.splits)
  have off: "off = (target b - location b) AND mask 13"
    using GetOffset_value [OF g] t
    by (auto simp add: GetOffsetLocation_def GetOffsetSize_def kOffset13_def mask_eq_exp_minus_1)
  from e g t obtain w where w: "EmitBcond (condition b) (lhs_reg b) (rhs_reg b) off = Inr w"
    and ws: "ws = [w]"
    by (auto simp add: EmitBranch_def Let_def split: sum.splits)
  have "imm_b w = ucast ((ucast off :: 16 word) AND NOT (mask 1))"
    using w by (rule imm_b_EmitBcond)
  also have "\<dots> = ucast (target b - location b)"
    unfolding off using ev by (intro field13 even_distance)
  finally have "sint (imm_b w) = uint (target b) - uint (location b)"
    using fit by (simp only: sint_short13)
  then show ?thesis using t ws
    by (auto simp add: decoded_offset_def Let_def kOffset13_def)
qed

lemma EmitBranch_short21:
  assumes e: "EmitBranch AT b = Inr ws"
    and t: "btype b = kUncondBranch \<or> btype b = kCall \<or> btype b = kBareUncondBranch
              \<or> btype b = kBareCall"
    and ev: "even (uint (target b) - uint (location b))"
    and fit: "IsInt 21 (uint (target b) - uint (location b))"
  shows "decoded_offset (btype b) ws = uint (target b) - uint (location b)"
proof -
  from e obtain off where g: "GetOffset b = Inr off"
    by (auto simp add: EmitBranch_def split: sum.splits)
  have off: "off = (target b - location b) AND mask 21"
    using GetOffset_value [OF g] t
    by (auto simp add: GetOffsetLocation_def GetOffsetSize_def kOffset21_def mask_eq_exp_minus_1)
  from e g t obtain w rd where w: "Jal rd off = Inr w" and ws: "ws = [w]"
    by (auto simp add: EmitBranch_def Let_def split: sum.splits)
  have "imm_j w = ucast (off AND NOT (mask 1))"
    using w by (rule imm_j_Jal)
  also have "\<dots> = ucast (target b - location b)"
    unfolding off using ev by (intro field21 even_distance)
  finally have "sint (imm_j w) = uint (target b) - uint (location b)"
    using fit by (simp only: sint_short21)
  then show ?thesis using t ws
    by (auto simp add: decoded_offset_def Let_def kOffset13_def kOffset21_def)
qed

lemma EmitBranch_long:
  assumes e: "EmitBranch AT b = Inr ws"
    and t: "IsLong b"
    and lo: "- (2 ^ 31) \<le> uint (target b) - uint (GetOffsetLocation b)"
    and hi: "uint (target b) - uint (GetOffsetLocation b) < 2 ^ 31 - 2048"
  shows "decoded_offset (btype b) ws = uint (target b) - uint (GetOffsetLocation b)"
proof -
  from e obtain off where g: "GetOffset b = Inr off"
    by (auto simp add: EmitBranch_def split: sum.splits)
  have s: "GetOffsetSize b = 32"
    using t by (cases "btype b") (simp_all add: IsLong_def GetOffsetSize_def kOffset32_def)
  have m: "(0xFFFFFFFF :: 32 word) = - 1" by simp
  have off: "off = target b - GetOffsetLocation b"
    using GetOffset_value [OF g] unfolding s m by simp
  define a where "a = adjust_offset off"
  have pair: "\<exists>pre i. ws = pre @ [Auipc AT (High20Bits a), i]
                 \<and> length pre = instr_offset (branch_info (btype b))
                 \<and> imm_i i = ucast (Low12Bits a)"
    using e g t unfolding a_def
    by (cases "btype b")
       (auto simp add: EmitBranch_def Let_def IsLong_def imm_i_low Addi_def
             imm_i_low(5) [unfolded Addi_def, simplified]
             split: sum.splits)
  then obtain pre i where ws: "ws = pre @ [Auipc AT (High20Bits a), i]"
    and n: "length pre = instr_offset (branch_info (btype b))"
    and i: "imm_i i = ucast (Low12Bits a)" by blast
  have o32: "offset_size (branch_info (btype b)) = 32"
    using s by (simp add: GetOffsetSize_def)
  have "decoded_offset (btype b) ws
          = sint (imm_u (Auipc AT (High20Bits a))) + sint (imm_i i)"
    unfolding decoded_offset_def Let_def o32 ws n [symmetric]
    by (simp add: kOffset13_def kOffset21_def nth_append)
  also have "\<dots> = sint (push_bit 12 (High20Bits a) :: 32 word) + sint (ucast (Low12Bits a) :: 12 word)"
    by (simp only: imm_u_Auipc i)
  also have "\<dots> = uint (target b) - uint (GetOffsetLocation b)"
    unfolding a_def off using lo hi by (rule long_pair_decodes)
  finally show ?thesis .
qed

lemma needed_fits:
  assumes "\<not> IsLong b" "IsResolved b"
    and "GetOffsetSizeNeeded (location b) (target b) \<le> GetOffsetSize b"
  shows "IsInt (GetOffsetSize b) (uint (target b) - uint (location b))
         \<and> IsInt (GetOffsetSize b) (uint (target b) - uint (location b) - 4)"
  using assms
  by (cases "btype b")
     (auto simp add: IsLong_def IsResolved_def GetOffsetSizeNeeded_def GetOffsetSize_def
        kOffset13_def kOffset21_def kOffset32_def IsInt_def kMaxBranchSize_def
        kMaxBranchLength_def Let_def split: if_splits)

lemma needed_exceeds:
  assumes "\<not> IsLong b" "IsResolved b"
  shows "(GetOffsetSize b < GetOffsetSizeNeeded (location b) (target b))
         = (\<not> IsInt (GetOffsetSize b)
                (uint (target b) - uint (location b)
                   + (if uint (target b) - uint (location b) \<ge> 0 then 128 else - 128)))"
  using assms
  by (cases "btype b")
     (auto simp add: IsLong_def IsResolved_def GetOffsetSizeNeeded_def GetOffsetSize_def
        kOffset13_def kOffset21_def kOffset32_def IsInt_def kMaxBranchSize_def
        kMaxBranchLength_def Let_def split: if_splits)

lemma MoveCode_branches: "MoveCode asm = Inr asm1 \<Longrightarrow> branches asm1 = branches asm"
  by (auto simp add: MoveCode_def Let_def split: if_splits sum.splits)

lemma AlignLongLiterals_cases:
  assumes "AlignLongLiterals asm1 = Inr asm'"
  shows "branches asm' = branches asm1
         \<or> (\<exists>first. 4 \<le> unat first
               \<and> branches asm' = map (\<lambda>branch. if target branch \<ge> first
                                            then branch\<lparr>target := target branch - 4\<rparr>
                                            else branch) (branches asm1))"
proof (cases "long_literals asm1 = []")
  case True
  then show ?thesis using assms by (simp add: AlignLongLiterals_def)
next
  case ne: False
  show ?thesis
  proof (cases "GetLabelLocation asm1 (lit_label (hd (long_literals asm1)))")
    case (Inl e)
    then show ?thesis using assms ne by (simp add: AlignLongLiterals_def)
  next
    case (Inr first)
    have endp: "unat first + length (long_literals asm1) * 8 = length (buffer asm1)"
    proof (rule ccontr)
      assume "\<not> ?thesis"
      then have "AlignLongLiterals asm1 = Inl CheckFailed"
        using ne Inr by (simp add: AlignLongLiterals_def Let_def)
      then show False using assms by simp
    qed
    show ?thesis
    proof (cases "unat first mod 8 = 0")
      case True
      then have "AlignLongLiterals asm1 = Inr asm1"
        using ne Inr endp by (simp add: AlignLongLiterals_def Let_def)
      then show ?thesis using assms by simp
    next
      case un: False
      have four: "4 \<le> unat first"
      proof (rule ccontr)
        assume "\<not> ?thesis"
        then have "AlignLongLiterals asm1 = Inl DCheckFailed"
          using ne Inr endp un by (simp add: AlignLongLiterals_def Let_def)
        then show False using assms by simp
      qed
      from AlignLongLiterals_unaligned [OF ne Inr endp un four] assms
      have "branches asm' = map (\<lambda>branch. if target branch \<ge> first
                                            then branch\<lparr>target := target branch - 4\<rparr>
                                            else branch) (branches asm1)"
        by auto
      then show ?thesis using four by blast
    qed
  qed
qed

lemma AlignLongLiterals_branches:
  assumes "AlignLongLiterals asm1 = Inr asm'" and "b' \<in> set (branches asm')"
  shows "\<exists>b \<in> set (branches asm1).
           b' = b \<or> (b' = b\<lparr>target := target b - 4\<rparr> \<and> 4 \<le> uint (target b))"
proof -
  from AlignLongLiterals_cases [OF assms(1)] show ?thesis
  proof
    assume "branches asm' = branches asm1"
    then show ?thesis using assms(2) by auto
  next
    assume "\<exists>first. 4 \<le> unat first
               \<and> branches asm' = map (\<lambda>branch. if target branch \<ge> first
                                            then branch\<lparr>target := target branch - 4\<rparr>
                                            else branch) (branches asm1)"
    then obtain first where f: "4 \<le> unat first"
      and bs: "branches asm' = map (\<lambda>branch. if target branch \<ge> first
                                            then branch\<lparr>target := target branch - 4\<rparr>
                                            else branch) (branches asm1)" by blast
    from assms(2) obtain b where b: "b \<in> set (branches asm1)"
      and b': "b' = (if target b \<ge> first then b\<lparr>target := target b - 4\<rparr> else b)"
      unfolding bs by auto
    show ?thesis
    proof (cases "target b \<ge> first")
      case True
      then have "unat first \<le> unat (target b)" by (simp add: word_le_nat_alt)
      then have "4 \<le> unat (target b)" using f by simp
      then have "4 \<le> uint (target b)" using uint_nat [of "target b"] by linarith
      then show ?thesis using b b' True by auto
    next
      case False
      then show ?thesis using b b' by auto
    qed
  qed
qed

lemma uint_minus_4:
  "4 \<le> uint (t :: 32 word) \<Longrightarrow> uint (t - 4) = uint t - 4"
  by (simp add: uint_sub_if' )

lemma PromoteBranches_fits:
  assumes p: "PromoteBranches asm = Inr asm'" and m: "b \<in> set (branches asm')"
    and s: "\<not> IsLong b"
  shows "IsInt (GetOffsetSize b) (uint (target b) - uint (location b))"
proof -
  from p obtain bs asm1 where l: "promote_loop (branches asm) = Inr bs"
    and mv: "MoveCode (asm\<lparr>branches := bs\<rparr>) = Inr asm1"
    and al: "AlignLongLiterals asm1 = Inr asm'"
    by (auto simp add: PromoteBranches_def split: sum.splits)
  have bs1: "branches asm1 = bs" using MoveCode_branches [OF mv] by simp
  from AlignLongLiterals_branches [OF al m] obtain b0 where
    b0: "b0 \<in> set bs"
    and c: "b = b0 \<or> (b = b0\<lparr>target := target b0 - 4\<rparr> \<and> 4 \<le> uint (target b0))"
    unfolding bs1 by blast
  have st: "(IsResolved (b0) \<and> (IsLong (b0) \<or> GetOffsetSizeNeeded (location (b0)) (target (b0)) \<le> GetOffsetSize (b0)))" using promote_loop_stable [OF l] b0 by simp
  have sh: "\<not> IsLong b0" using c s by (auto simp add: IsLong_def)
  have f: "IsInt (GetOffsetSize b0) (uint (target b0) - uint (location b0))
           \<and> IsInt (GetOffsetSize b0) (uint (target b0) - uint (location b0) - 4)"
    using st sh by (intro needed_fits) simp_all
  from c show ?thesis
  proof
    assume "b = b0"
    then show ?thesis using f by simp
  next
    assume h: "b = b0\<lparr>target := target b0 - 4\<rparr> \<and> 4 \<le> uint (target b0)"
    then have "uint (target b) = uint (target b0) - 4" by (simp add: uint_minus_4)
    moreover have "location b = location b0" "GetOffsetSize b = GetOffsetSize b0"
      using h by (simp_all add: GetOffsetSize_def)
    ultimately have "uint (target b) - uint (location b)
                       = uint (target b0) - uint (location b0) - 4"
      and "GetOffsetSize b = GetOffsetSize b0" by simp_all
    then show ?thesis using f by simp
  qed
qed

lemma short_types:
  "\<not> IsLong b \<Longrightarrow>
     ((btype b = kCondBranch \<or> btype b = kBareCondBranch) \<and> GetOffsetSize b = 13)
     \<or> ((btype b = kUncondBranch \<or> btype b = kCall \<or> btype b = kBareUncondBranch
              \<or> btype b = kBareCall) \<and> GetOffsetSize b = 21)"
  by (cases "btype b") (simp_all add: IsLong_def GetOffsetSize_def kOffset13_def kOffset21_def)

text \<open>
  C2 (as stated, refuted). A conditional branch at offset 0 whose target is at offset
  4000 has a distance that fits the 13-bit class of its one-instruction form, yet
  \<open>PromoteIfNeeded\<close> under the default threshold makes it a long branch: the distance
  is compared after \<open>kMaxBranchSize\<close> = 128 has been added to it.
\<close>

theorem PromoteIfNeeded_bias_counterexample:
  "PromoteIfNeeded
     \<lparr>old_location = 0, location = 0, target = 4000, lhs_reg = 5, rhs_reg = 6,
      condition = kCondEQ, btype = kCondBranch, old_btype = kCondBranch\<rparr>
     kDefaultMaxShortDistance
   = Inr (\<lparr>old_location = 0, location = 0, target = 4000, lhs_reg = 5, rhs_reg = 6,
           condition = kCondEQ, btype = kLongCondBranch, old_btype = kCondBranch\<rparr>, 8)
   \<and> GetOffsetSize
       \<lparr>old_location = 0, location = 0, target = 4000, lhs_reg = 5, rhs_reg = 6,
        condition = kCondEQ, btype = kCondBranch, old_btype = kCondBranch\<rparr> = 13
   \<and> IsInt 13 (uint (4000 :: 32 word) - uint (0 :: 32 word))
   \<and> promote_loop
       [\<lparr>old_location = 0, location = 0, target = 4000, lhs_reg = 5, rhs_reg = 6,
         condition = kCondEQ, btype = kCondBranch, old_btype = kCondBranch\<rparr>]
     = Inr [\<lparr>old_location = 0, location = 0, target = 4008, lhs_reg = 5, rhs_reg = 6,
             condition = kCondEQ, btype = kLongCondBranch, old_btype = kCondBranch\<rparr>]"
  by code_simp

text \<open>
  C2. Once \<open>PromoteBranches\<close> has run, the words \<open>EmitBranch\<close> writes for a branch of
  the final list encode the byte distance from the instruction holding the offset
  (\<open>GetOffsetLocation\<close>; \<open>pc_org\<close> and \<open>offset_shift\<close> are 0 for every type) to the
  target: for a one-instruction branch whenever that distance is even, for the
  \<open>auipc\<close> pair of a long form whenever it lies in \<open>[-2^31, 2^31 - 2048)\<close>. Under the
  default threshold \<open>PromoteIfNeeded\<close> promotes exactly the resolved short branches whose
  distance, moved 128 bytes away from zero, no longer fits the class of their current
  form; a branch that is not promoted is left as it is, a promoted one differs in its
  type only and is long.
\<close>

theorem promoted_branch_offsets:
  "(PromoteBranches asm = Inr asm' \<and> b \<in> set (branches asm') \<and> EmitBranch AT b = Inr ws \<longrightarrow>
      (\<not> IsLong b \<and> even (uint (target b) - uint (location b)) \<longrightarrow>
         decoded_offset (btype b) ws = uint (target b) - uint (GetOffsetLocation b))
      \<and> (IsLong b \<and> - (2 ^ 31) \<le> uint (target b) - uint (GetOffsetLocation b)
            \<and> uint (target b) - uint (GetOffsetLocation b) < 2 ^ 31 - 2048 \<longrightarrow>
         decoded_offset (btype b) ws = uint (target b) - uint (GetOffsetLocation b)))
   \<and> (PromoteIfNeeded c kDefaultMaxShortDistance = Inr (c', delta) \<longrightarrow>
        (delta \<noteq> 0) =
            (\<not> IsLong c \<and> IsResolved c
             \<and> \<not> IsInt (GetOffsetSize c)
                      (uint (target c) - uint (location c)
                         + (if uint (target c) - uint (location c) \<ge> 0 then 128 else - 128)))
        \<and> (delta = 0 \<longrightarrow> c' = c)
        \<and> (delta \<noteq> 0 \<longrightarrow> IsLong c' \<and> c'\<lparr>btype := btype c\<rparr> = c))"
proof -
  have A: "decoded_offset (btype b) ws = uint (target b) - uint (GetOffsetLocation b)"
    if p: "PromoteBranches asm = Inr asm'" and m: "b \<in> set (branches asm')"
      and e: "EmitBranch AT b = Inr ws" and s: "\<not> IsLong b"
      and ev: "even (uint (target b) - uint (location b))"
  proof -
    have f: "IsInt (GetOffsetSize b) (uint (target b) - uint (location b))"
      using p m s by (rule PromoteBranches_fits)
    have l: "GetOffsetLocation b = location b" using s by (rule short_location)
    from short_types [OF s] show ?thesis
    proof
      assume h: "(btype b = kCondBranch \<or> btype b = kBareCondBranch) \<and> GetOffsetSize b = 13"
      then have "IsInt 13 (uint (target b) - uint (location b))" using f by simp
      then show ?thesis unfolding l using e h ev by (intro EmitBranch_short13) simp_all
    next
      assume h: "(btype b = kUncondBranch \<or> btype b = kCall \<or> btype b = kBareUncondBranch
              \<or> btype b = kBareCall) \<and> GetOffsetSize b = 21"
      then have "IsInt 21 (uint (target b) - uint (location b))" using f by simp
      then show ?thesis unfolding l using e h ev by (intro EmitBranch_short21) simp_all
    qed
  qed
  have B: "decoded_offset (btype b) ws = uint (target b) - uint (GetOffsetLocation b)"
    if "EmitBranch AT b = Inr ws" "IsLong b"
       "- (2 ^ 31) \<le> uint (target b) - uint (GetOffsetLocation b)"
       "uint (target b) - uint (GetOffsetLocation b) < 2 ^ 31 - 2048"
    using that by (rule EmitBranch_long)
  have C: "(delta \<noteq> 0) =
            (\<not> IsLong c \<and> IsResolved c
             \<and> \<not> IsInt (GetOffsetSize c)
                      (uint (target c) - uint (location c)
                         + (if uint (target c) - uint (location c) \<ge> 0 then 128 else - 128)))
        \<and> (delta = 0 \<longrightarrow> c' = c)
        \<and> (delta \<noteq> 0 \<longrightarrow> IsLong c' \<and> c'\<lparr>btype := btype c\<rparr> = c)"
    if h: "PromoteIfNeeded c kDefaultMaxShortDistance = Inr (c', delta)"
  proof -
    have 1: "(delta \<noteq> 0) = (\<not> IsLong c \<and> IsResolved c
                        \<and> GetOffsetSize c < GetOffsetSizeNeeded (location c) (target c))"
      using h by (rule PromoteIfNeeded_default(1))
    have 2: "delta = 0 \<longrightarrow> c' = c" using PromoteIfNeeded_default(2) [OF h] by simp
    have 3: "delta \<noteq> 0 \<longrightarrow> IsLong c' \<and> c'\<lparr>btype := btype c\<rparr> = c"
      using h
      by (auto simp add: PromoteIfNeeded_def promote_and_measure_def PromoteToLong_def Let_def
          split: if_splits sum.splits BranchType.splits)
    show ?thesis using 1 2 3 needed_exceeds [of c] by blast
  qed
  show ?thesis using A B C by blast
qed

theorem promoted_branch_offsets_witness:
  "PromoteBranches
     \<lparr>buffer = [0x13, 0, 0, 0, 0x13, 0, 0, 0, 0x13, 0, 0, 0, 0x13, 0, 0, 0, 1, 2, 3, 4],
      branches = [\<lparr>old_location = 0, location = 0, target = 16, lhs_reg = 10, rhs_reg = 0,
                   condition = kUncond, btype = kLiteral, old_btype = kLiteral\<rparr>,
                  \<lparr>old_location = 8, location = 8, target = 0, lhs_reg = 7, rhs_reg = 0,
                   condition = kCondNEZ, btype = kCondBranch, old_btype = kCondBranch\<rparr>],
      literals = [\<lparr>lit_label = \<lparr>position = - 12, prev_branch_id_plus_one = 2\<rparr>,
                   lit_data = [1, 2, 3, 4]\<rparr>],
      long_literals = []\<rparr>
   = Inr \<lparr>buffer = [0x13, 0, 0, 0, 0x13, 0, 0, 0, 0x13, 0, 0, 0, 0x13, 0, 0, 0, 1, 2, 3, 4],
          branches = [\<lparr>old_location = 0, location = 0, target = 16, lhs_reg = 10, rhs_reg = 0,
                       condition = kUncond, btype = kLiteral, old_btype = kLiteral\<rparr>,
                      \<lparr>old_location = 8, location = 8, target = 0, lhs_reg = 7, rhs_reg = 0,
                       condition = kCondNEZ, btype = kCondBranch, old_btype = kCondBranch\<rparr>],
          literals = [\<lparr>lit_label = \<lparr>position = - 12, prev_branch_id_plus_one = 2\<rparr>,
                       lit_data = [1, 2, 3, 4]\<rparr>],
          long_literals = []\<rparr>
   \<and> EmitBranch 31
        \<lparr>old_location = 0, location = 0, target = 16, lhs_reg = 10, rhs_reg = 0,
         condition = kUncond, btype = kLiteral, old_btype = kLiteral\<rparr>
       = Inr [0xF97, 0x010FA503]
   \<and> decoded_offset kLiteral [0xF97, 0x010FA503] = 16
   \<and> EmitBranch 31
        \<lparr>old_location = 8, location = 8, target = 0, lhs_reg = 7, rhs_reg = 0,
         condition = kCondNEZ, btype = kCondBranch, old_btype = kCondBranch\<rparr>
       = Inr [0xFE039CE3]
   \<and> decoded_offset kCondBranch [0xFE039CE3] = - 8
   \<and> PromoteIfNeeded
        \<lparr>old_location = 8, location = 8, target = 0, lhs_reg = 7, rhs_reg = 0,
         condition = kCondNEZ, btype = kCondBranch, old_btype = kCondBranch\<rparr>
        kDefaultMaxShortDistance
       = Inr (\<lparr>old_location = 8, location = 8, target = 0, lhs_reg = 7, rhs_reg = 0,
               condition = kCondNEZ, btype = kCondBranch, old_btype = kCondBranch\<rparr>, 0)
   \<and> IsInt 13 (uint (0 :: 32 word) - uint (8 :: 32 word) - 128)
   \<and> PromoteIfNeeded
        \<lparr>old_location = 0, location = 0, target = 4000, lhs_reg = 5, rhs_reg = 6,
         condition = kCondEQ, btype = kCondBranch, old_btype = kCondBranch\<rparr>
        kDefaultMaxShortDistance
       = Inr (\<lparr>old_location = 0, location = 0, target = 4000, lhs_reg = 5, rhs_reg = 6,
               condition = kCondEQ, btype = kLongCondBranch, old_btype = kCondBranch\<rparr>, 8)
   \<and> \<not> IsInt 13 (uint (4000 :: 32 word) - uint (0 :: 32 word) + 128)"
proof -
  let ?b0 = "\<lparr>old_location = 0, location = 0, target = 16, lhs_reg = 10, rhs_reg = 0,
              condition = kUncond, btype = kLiteral, old_btype = kLiteral\<rparr>"
  let ?b1 = "\<lparr>old_location = 8, location = 8, target = 0, lhs_reg = 7, rhs_reg = 0,
              condition = kCondNEZ, btype = kCondBranch, old_btype = kCondBranch\<rparr>"
  let ?c = "\<lparr>old_location = 0, location = 0, target = 4000, lhs_reg = 5, rhs_reg = 6,
             condition = kCondEQ, btype = kCondBranch, old_btype = kCondBranch\<rparr>"
  let ?a = "\<lparr>buffer = [0x13, 0, 0, 0, 0x13, 0, 0, 0, 0x13, 0, 0, 0, 0x13, 0, 0, 0, 1, 2, 3, 4],
             branches = [?b0, ?b1],
             literals = [\<lparr>lit_label = \<lparr>position = - 12, prev_branch_id_plus_one = 2\<rparr>,
                          lit_data = [1, 2, 3, 4]\<rparr>],
             long_literals = []\<rparr>"
  have p: "PromoteBranches ?a = Inr ?a" by code_simp
  have e0: "EmitBranch 31 ?b0 = Inr [0xF97, 0x010FA503]" by code_simp
  have e1: "EmitBranch 31 ?b1 = Inr [0xFE039CE3]" by code_simp
  have l: "IsLong ?b0" "\<not> IsLong ?b1" "\<not> IsLong ?c"
    "IsResolved ?c" "IsResolved ?b1" "GetOffsetSize ?c = 13" "GetOffsetSize ?b1 = 13"
    by (simp_all add: IsLong_def IsResolved_def kUnresolved_def GetOffsetSize_def kOffset13_def)
  have g: "GetOffsetLocation ?b0 = 0" "GetOffsetLocation ?b1 = 8"
    by (simp_all add: GetOffsetLocation_def)
  have pi0: "PromoteIfNeeded ?c kDefaultMaxShortDistance = Inr (?c\<lparr>btype := kLongCondBranch\<rparr>, 8)"
    by code_simp
  have pi1: "PromoteIfNeeded ?b1 kDefaultMaxShortDistance = Inr (?b1, 0)"
    by code_simp
  from promoted_branch_offsets [of ?a ?a ?b0 31 "[0xF97, 0x010FA503]" ?c
          "?c\<lparr>btype := kLongCondBranch\<rparr>" 8]
       promoted_branch_offsets [of ?a ?a ?b1 31 "[0xFE039CE3]" ?b1 ?b1 0]
       p e0 e1 l g pi0 pi1
  show ?thesis by simp
qed

subsection \<open>Truncation and NaN-aware minimum and maximum\<close>
















end
